(* ===== verification/Tincan_Prelude.thy ===== *)
theory Tincan_Prelude
  imports Main "HOL-Library.Word" "HOL-Library.List_Lexorder" "HOL-Library.Char_ord"
begin

text \<open>
  What the components share: the faults a C++ operation of the program can end in and the
  sequencing of operations that may fault, bytes and strings, the parts of the C and C++
  standard libraries that the sources use (\<open>std::string\<close>, \<open>atoi\<close>, \<open>strncmp\<close>, stream
  output of integers, stream extraction of words, ordered maps), and the generic lemmas on
  them. The simp collection \<open>tincan_simps\<close> (when a sequence of operations returns, among others) is
  declared here and filled by the components.
\<close>

named_theorems tincan_simps

section \<open>Faults and their sequencing\<close>

text \<open>
  Every way an operation of the sources can end other than by returning: a call through a
  null pointer (\<open>operator[]\<close> of a map of pointers inserts one), a call through a pointer whose
  object is destroyed, an exception of \<open>std::string\<close>, a read past the end of the memory a pointer reaches, a conversion with
  undefined result, an \<open>ASSERT\<close> of a debug build that fails, an accessor of the JSON
  library that throws, and the exit of the process by \<open>exit(0)\<close>.
\<close>

datatype fault = NullDeref | UseAfterFree | OutOfRange | OverRead | UndefinedConv | AssertFailed | JsonThrow
  | ExitProcess

type_synonym 'a result = "fault + 'a"

definition sbind :: "'a result \<Rightarrow> ('a \<Rightarrow> 'b result) \<Rightarrow> 'b result" where
  "sbind m f = (case m of Inl e \<Rightarrow> Inl e | Inr x \<Rightarrow> f x)"

lemma sbind_Inl [simp]: "sbind (Inl e) f = Inl e"
  by (simp add: sbind_def)

lemma sbind_Inr [simp]: "sbind (Inr x) f = f x"
  by (simp add: sbind_def)

lemma sbind_eq_Inr: "sbind m f = Inr y \<longleftrightarrow> (\<exists>x. m = Inr x \<and> f x = Inr y)"
  by (cases m) simp_all

lemma sbind_eq_Inl: "sbind m f = Inl e \<longleftrightarrow> m = Inl e \<or> (\<exists>x. m = Inr x \<and> f x = Inl e)"
  by (cases m) simp_all

lemma sbind_cong [fundef_cong]:
  "m = m' \<Longrightarrow> (\<And>x. m' = Inr x \<Longrightarrow> f x = f' x) \<Longrightarrow> sbind m f = sbind m' f'"
  by (cases m') simp_all

definition from_opt :: "fault \<Rightarrow> 'a option \<Rightarrow> 'a result" where
  "from_opt e m = (case m of None \<Rightarrow> Inl e | Some x \<Rightarrow> Inr x)"

lemma from_opt_simps [simp]: "from_opt e None = Inl e" "from_opt e (Some x) = Inr x"
  by (simp_all add: from_opt_def)

lemma from_opt_eq_Inr [simp]: "from_opt e m = Inr x \<longleftrightarrow> m = Some x"
  by (cases m) simp_all

section \<open>Bytes, sizes and memory\<close>

type_synonym byte = "8 word"
type_synonym u32 = "32 word"
type_synonym u64 = "64 word"

text \<open>Difference of two \<open>size_t\<close> values: it wraps around at 64 bits.\<close>

definition size_sub :: "nat \<Rightarrow> nat \<Rightarrow> nat" where
  "size_sub a b = unat (of_nat a - of_nat b :: u64)"

lemma unat_of_nat_u64: "n < 2 ^ 64 \<Longrightarrow> unat (of_nat n :: u64) = n"
  by (simp add: unat_of_nat take_bit_nat_eq_self)

lemma size_sub_ge: "b \<le> a \<Longrightarrow> a < 2 ^ 64 \<Longrightarrow> size_sub a b = a - b"
proof -
  assume *: "b \<le> a" "a < 2 ^ 64"
  have "(of_nat a - of_nat b :: u64) = of_nat (a - b)"
    using * by simp
  then show ?thesis
    using * unat_of_nat_u64 [of "a - b"] by (simp add: size_sub_def)
qed

text \<open>
  A pointer into a buffer is the list of the bytes readable from it. Reading \<open>n\<close> bytes
  through it is defined only where there are that many.
\<close>

definition mem_read :: "byte list \<Rightarrow> nat \<Rightarrow> byte list result" where
  "mem_read mem n = (if n \<le> length mem then Inr (take n mem) else Inl OverRead)"

definition mem_byte :: "byte list \<Rightarrow> nat \<Rightarrow> byte result" where
  "mem_byte mem i = (if i < length mem then Inr (mem ! i) else Inl OverRead)"

lemma mem_read_all [simp]: "mem_read mem (length mem) = Inr mem"
  by (simp add: mem_read_def)

lemma mem_read_prefix [simp]: "mem_read (xs @ ys) (length xs) = Inr xs"
  by (simp add: mem_read_def)

definition string_of_bytes :: "byte list \<Rightarrow> string" where
  "string_of_bytes bs = map (\<lambda>b. char_of (unat b)) bs"

definition bytes_of_string :: "string \<Rightarrow> byte list" where
  "bytes_of_string s = map (\<lambda>c. word_of_nat (of_char c)) s"

lemma unat_of_char: "unat (word_of_nat (of_char c) :: byte) = of_char c"
proof -
  have "(of_char c :: nat) < 256" by simp
  then show ?thesis by (simp add: unat_of_nat take_bit_nat_eq_self)
qed

lemma string_of_bytes_of_string [simp]: "string_of_bytes (bytes_of_string s) = s"
  by (simp add: string_of_bytes_def bytes_of_string_def comp_def unat_of_char)

lemma length_bytes_of_string [simp]: "length (bytes_of_string s) = length s"
  by (simp add: bytes_of_string_def)

lemma length_string_of_bytes [simp]: "length (string_of_bytes bs) = length bs"
  by (simp add: string_of_bytes_def)

lemma bytes_of_string_inject [simp]: "bytes_of_string s = bytes_of_string t \<longleftrightarrow> s = t"
  by (metis string_of_bytes_of_string)

text \<open>
  A \<open>const char*\<close> used as a C string: the bytes before the first zero byte. Without a zero
  byte the scan leaves the buffer.
\<close>

definition c_str :: "byte list \<Rightarrow> string result" where
  "c_str mem = (if 0 \<in> set mem then Inr (string_of_bytes (takeWhile (\<lambda>b. b \<noteq> 0) mem))
                else Inl OverRead)"

section \<open>std::string\<close>

text \<open>\<open>npos\<close> is the largest \<open>size_t\<close>; \<open>find\<close> returns it when the character is absent.\<close>

definition npos :: u64 where
  "npos = - 1"

definition str_find :: "string \<Rightarrow> char \<Rightarrow> u64" where
  "str_find s c = (if c \<in> set s then of_nat (length (takeWhile (\<lambda>x. x \<noteq> c) s)) else npos)"

definition str_substr :: "string \<Rightarrow> nat \<Rightarrow> nat \<Rightarrow> string result" where
  "str_substr s pos n = (if pos \<le> length s then Inr (take n (drop pos s)) else Inl OutOfRange)"

text \<open>Sign of \<open>compare\<close>: lexicographic on unsigned characters, a proper prefix is smaller.\<close>

definition str_compare :: "string \<Rightarrow> string \<Rightarrow> int" where
  "str_compare a b = (if a < b then - 1 else if a = b then 0 else 1)"

text \<open>\<open>compare(pos, len, s)\<close>: the substring against the whole of \<open>s\<close>.\<close>

definition str_compare_sub :: "string \<Rightarrow> nat \<Rightarrow> nat \<Rightarrow> string \<Rightarrow> int result" where
  "str_compare_sub s pos n t = sbind (str_substr s pos n) (\<lambda>u. Inr (str_compare u t))"

lemma str_substr_0 [simp]: "str_substr s 0 n = Inr (take n s)"
  by (simp add: str_substr_def)

lemma str_compare_eq_0 [simp]: "str_compare a b = 0 \<longleftrightarrow> a = b"
  by (auto simp: str_compare_def)

lemma str_compare_less_0 [simp]: "str_compare a b < 0 \<longleftrightarrow> a < b"
  by (auto simp: str_compare_def)

lemma str_compare_greater_0 [simp]: "0 < str_compare a b \<longleftrightarrow> b < a"
  by (auto simp: str_compare_def)

lemma str_compare_sub_0: "str_compare_sub s 0 n t = Inr (str_compare (take n s) t)"
  by (simp add: str_compare_sub_def)

lemma str_find_absent: "c \<notin> set s \<Longrightarrow> str_find s c = npos"
  by (simp add: str_find_def)

lemma takeWhile_neq_append: "c \<notin> set s \<Longrightarrow> takeWhile (\<lambda>x. x \<noteq> c) (s @ c # t) = s"
  by (induction s) auto

lemma str_find_append: "c \<notin> set s \<Longrightarrow> str_find (s @ c # t) c = of_nat (length s)"
  by (simp add: str_find_def takeWhile_neq_append)

section \<open>C strings and number conversion\<close>

definition is_space :: "char \<Rightarrow> bool" where
  "is_space c \<longleftrightarrow> of_char c = (32::nat) \<or> (9 \<le> (of_char c :: nat) \<and> of_char c \<le> (13::nat))"

definition is_digit :: "char \<Rightarrow> bool" where
  "is_digit c \<longleftrightarrow> 48 \<le> (of_char c :: nat) \<and> of_char c \<le> (57::nat)"

fun digits_value :: "nat \<Rightarrow> string \<Rightarrow> nat" where
  "digits_value acc [] = acc"
| "digits_value acc (c # cs) =
     (if is_digit c then digits_value (10 * acc + (of_char c - 48)) cs else acc)"

text \<open>
  \<open>atoi\<close> skips white space, takes an optional sign and the digits that follow; the value of
  a number that does not fit an \<open>int\<close> is undefined.
\<close>

definition atoi :: "string \<Rightarrow> int result" where
  "atoi s =
     (let t = dropWhile is_space s;
          v = (case t of
                 [] \<Rightarrow> 0
               | c # cs \<Rightarrow> if c = CHR ''-'' then - int (digits_value 0 cs)
                          else if c = CHR ''+'' then int (digits_value 0 cs)
                          else int (digits_value 0 t))
      in if - (2 ^ 31) \<le> v \<and> v < 2 ^ 31 then Inr v else Inl UndefinedConv)"

text \<open>Stream output of an unsigned integer: its decimal digits.\<close>

definition digit_char :: "nat \<Rightarrow> char" where
  "digit_char d = char_of (48 + d)"

fun show_nat :: "nat \<Rightarrow> string" where
  "show_nat n = (if n < 10 then [digit_char n] else show_nat (n div 10) @ [digit_char (n mod 10)])"

declare show_nat.simps [simp del]

text \<open>Stream output of an \<open>int\<close>.\<close>

definition show_int :: "int \<Rightarrow> string" where
  "show_int i = (if i < 0 then CHR ''-'' # show_nat (nat (- i)) else show_nat (nat i))"

lemma of_char_digit_char: "d < 10 \<Longrightarrow> of_char (digit_char d) = 48 + d"
  by (simp add: digit_char_def)

lemma is_digit_digit_char: "d < 10 \<Longrightarrow> is_digit (digit_char d)"
  by (simp add: is_digit_def of_char_digit_char)

lemma show_nat_nonempty [simp]: "show_nat n \<noteq> []"
  by (subst show_nat.simps) simp

lemma show_nat_digits: "c \<in> set (show_nat n) \<Longrightarrow> is_digit c"
proof (induction n rule: show_nat.induct)
  case (1 n)
  show ?case
  proof (cases "n < 10")
    case True
    then show ?thesis
      using "1.prems" by (simp add: show_nat.simps [of n] is_digit_digit_char)
  next
    case False
    then show ?thesis
      using "1.prems" "1.IH" by (auto simp: show_nat.simps [of n] is_digit_digit_char)
  qed
qed

lemma digits_value_append:
  "(\<forall>c \<in> set s. is_digit c) \<Longrightarrow> digits_value acc (s @ t) = digits_value (digits_value acc s) t"
  by (induction s arbitrary: acc) auto

lemma digits_value_show_nat: "digits_value 0 (show_nat n) = n"
proof (induction n rule: show_nat.induct)
  case (1 n)
  show ?case
  proof (cases "n < 10")
    case True
    then show ?thesis
      by (simp add: show_nat.simps [of n] is_digit_digit_char of_char_digit_char)
  next
    case False
    have "digits_value 0 (show_nat (n div 10) @ [digit_char (n mod 10)]) =
      digits_value (n div 10) [digit_char (n mod 10)]"
      using False "1.IH" show_nat_digits by (simp add: digits_value_append)
    also have "\<dots> = n"
      by (simp add: is_digit_digit_char of_char_digit_char)
    finally show ?thesis
      using False by (simp add: show_nat.simps [of n])
  qed
qed

lemma digit_not_special:
  "is_digit c \<Longrightarrow> \<not> is_space c \<and> c \<noteq> CHR ''-'' \<and> c \<noteq> CHR ''+'' \<and> c \<noteq> CHR '':''"
  by (auto simp: is_digit_def is_space_def)

lemma atoi_show_nat [simp]: "n < 2 ^ 31 \<Longrightarrow> atoi (show_nat n) = Inr (int n)"
proof -
  assume n: "n < 2 ^ 31"
  obtain c cs where s: "show_nat n = c # cs"
    by (cases "show_nat n") simp_all
  then have c: "is_digit c"
    using show_nat_digits [of c n] by simp
  have d: "digits_value 0 (c # cs) = n"
    using digits_value_show_nat [of n] s by simp
  have b: "dropWhile is_space (c # cs) = c # cs"
    using digit_not_special [OF c] by simp
  show ?thesis
    unfolding atoi_def s b Let_def
    using digit_not_special [OF c] d n by (simp del: digits_value.simps)
qed

text \<open>\<open>strncmp(a, b, n) == 0\<close> on the C strings that two buffers hold.\<close>

fun strncmp_eq :: "string \<Rightarrow> string \<Rightarrow> nat \<Rightarrow> bool" where
  "strncmp_eq a b 0 = True"
| "strncmp_eq [] [] (Suc n) = True"
| "strncmp_eq (x # a) (y # b) (Suc n) = (x = y \<and> strncmp_eq a b n)"
| "strncmp_eq [] (y # b) (Suc n) = False"
| "strncmp_eq (x # a) [] (Suc n) = False"

lemma strncmp_eq_take: "strncmp_eq a b n \<longleftrightarrow> take n a = take n b"
  by (induction a b n rule: strncmp_eq.induct) auto

section \<open>Extraction of words from a stream\<close>

text \<open>
  \<open>iss >> w\<close>: skips white space and takes the characters up to the next white space. It fails,
  and leaves the word empty, when nothing but white space is left.
\<close>

definition iss_extract :: "string \<Rightarrow> string \<times> string \<times> bool" where
  "iss_extract s = (let r = dropWhile is_space s in
     (takeWhile (\<lambda>c. \<not> is_space c) r, dropWhile (\<lambda>c. \<not> is_space c) r, r \<noteq> []))"

lemma iss_extract_shorter:
  "iss_extract s = (w, r, True) \<Longrightarrow> length r < length s"
proof -
  assume "iss_extract s = (w, r, True)"
  then have r: "r = dropWhile (\<lambda>c. \<not> is_space c) (dropWhile is_space s)"
    and ne: "dropWhile is_space s \<noteq> []"
    by (auto simp: iss_extract_def Let_def)
  obtain c cs where t: "dropWhile is_space s = c # cs"
    using ne by (cases "dropWhile is_space s") auto
  then have c: "\<not> is_space c"
    using hd_dropWhile [OF ne] by simp
  have "length r \<le> length cs"
    unfolding r t using c by (simp add: length_dropWhile_le)
  moreover have "length (c # cs) \<le> length s"
    unfolding t [symmetric] by (rule length_dropWhile_le)
  ultimately show ?thesis by simp
qed

lemma iss_extract_word:
  assumes "w \<noteq> []" and "\<forall>c \<in> set w. \<not> is_space c"
    and "t = [] \<or> is_space (hd t)" and "\<forall>c \<in> set sp. is_space c"
  shows "iss_extract (sp @ w @ t) = (w, t, True)"
proof -
  have "dropWhile is_space (w @ t) = w @ t"
    using assms(1,2) by (cases w) auto
  then have 1: "dropWhile is_space (sp @ w @ t) = w @ t"
    using assms(4) by (simp add: dropWhile_append2)
  have 2: "takeWhile (\<lambda>c. \<not> is_space c) (w @ t) = w"
    using assms(2,3) by (cases t) (auto simp: takeWhile_append2)
  have 3: "dropWhile (\<lambda>c. \<not> is_space c) (w @ t) = t"
    using assms(2,3) by (cases t) (auto simp: dropWhile_append2)
  show ?thesis
    using assms(1) unfolding iss_extract_def 1 2 3 Let_def by simp
qed

section \<open>Ordered maps\<close>

text \<open>
  A \<open>std::map\<close> whose elements the code visits in order: the list of its entries by increasing
  key. (Maps that are only looked up are functions \<open>'k \<rightharpoonup> 'v\<close>.)
\<close>

type_synonym ('k, 'v) omap = "('k \<times> 'v) list"

abbreviation omap_get :: "('k, 'v) omap \<Rightarrow> 'k \<rightharpoonup> 'v" where
  "omap_get \<equiv> map_of"

fun omap_put :: "'k::linorder \<Rightarrow> 'v \<Rightarrow> ('k, 'v) omap \<Rightarrow> ('k, 'v) omap" where
  "omap_put k v [] = [(k, v)]"
| "omap_put k v ((a, b) # m) =
     (if k = a then (k, v) # m
      else if k < a then (k, v) # (a, b) # m
      else (a, b) # omap_put k v m)"

definition omap_ok :: "('k::linorder, 'v) omap \<Rightarrow> bool" where
  "omap_ok m \<longleftrightarrow> sorted_wrt (<) (map fst m)"

lemma omap_get_put [simp]: "omap_get (omap_put k v m) = (omap_get m)(k \<mapsto> v)"
  by (induction k v m rule: omap_put.induct) (auto simp: fun_eq_iff)

lemma omap_keys_put: "fst ` set (omap_put k v m) = insert k (fst ` set m)"
  by (induction k v m rule: omap_put.induct) auto

lemma omap_ok_empty [simp]: "omap_ok []"
  by (simp add: omap_ok_def)

lemma omap_ok_put: "omap_ok m \<Longrightarrow> omap_ok (omap_put k v m)"
proof (induction k v m rule: omap_put.induct)
  case (1 k v)
  then show ?case by (simp add: omap_ok_def)
next
  case (2 k v a b m)
  show ?case
  proof (cases k a rule: linorder_cases)
    case less
    then show ?thesis using "2.prems" by (fastforce simp: omap_ok_def)
  next
    case equal
    then show ?thesis using "2.prems" by (simp add: omap_ok_def)
  next
    case greater
    then have "omap_ok (omap_put k v m)"
      using 2 by (simp add: omap_ok_def)
    moreover have "\<forall>x \<in> fst ` set (omap_put k v m). a < x"
      using greater "2.prems" by (auto simp: omap_ok_def omap_keys_put simp del: omap_put.simps)
    ultimately show ?thesis
      using greater by (auto simp: omap_ok_def)
  qed
qed

lemma omap_ok_distinct: "omap_ok m \<Longrightarrow> distinct (map fst m)"
  unfolding omap_ok_def using strict_sorted_iff by blast

section \<open>Maps\<close>

text \<open>
  \<open>m[k]\<close> on a \<open>std::map\<close>: a missing key is first inserted with the default value \<open>d\<close> of the
  value type (an empty string, a null pointer, 0).
\<close>

definition map_index :: "('k \<rightharpoonup> 'v) \<Rightarrow> 'k \<Rightarrow> 'v \<Rightarrow> 'v \<times> ('k \<rightharpoonup> 'v)" where
  "map_index m k d = (case m k of Some v \<Rightarrow> (v, m) | None \<Rightarrow> (d, m(k \<mapsto> d)))"

lemma map_index_Some [simp]: "m k = Some v \<Longrightarrow> map_index m k d = (v, m)"
  by (simp add: map_index_def)

lemma map_index_None [simp]: "m k = None \<Longrightarrow> map_index m k d = (d, m(k \<mapsto> d))"
  by (simp add: map_index_def)

lemma map_upd_eq_Some: "(m(k \<mapsto> v)) x = Some w \<longleftrightarrow> (x = k \<and> w = v) \<or> (x \<noteq> k \<and> m x = Some w)"
  by auto

lemma map_del_eq_Some: "(m(k := None)) x = Some w \<longleftrightarrow> x \<noteq> k \<and> m x = Some w"
  by auto

lemmas map_eq_Some = map_upd_eq_Some map_del_eq_Some

section \<open>Simulation of steps that may fault\<close>

text \<open>
  A program whose steps end in a state or a fault, and a specification: when every step of the
  program from a related state ends in a state, related to the same or a next state of the
  specification, then no run of the program meets a fault and each is a run of the specification.
\<close>

locale safe_simulation =
  fixes step :: "'c \<Rightarrow> 'c result \<Rightarrow> bool"
    and spec :: "'a \<Rightarrow> 'a \<Rightarrow> bool"
    and related :: "'c \<Rightarrow> 'a \<Rightarrow> bool"
  assumes simulate: "related s a \<Longrightarrow> step s r \<Longrightarrow>
    \<exists>s' a'. r = Inr s' \<and> (a' = a \<or> spec a a') \<and> related s' a'"
begin

lemma no_fault: "related s a \<Longrightarrow> \<not> step s (Inl f)"
  using simulate by blast

lemma runs_related:
  assumes "(\<lambda>s s'. step s (Inr s'))\<^sup>*\<^sup>* s s'" and "related s a"
  shows "\<exists>a'. spec\<^sup>*\<^sup>* a a' \<and> related s' a'"
  using assms(1)
proof (induction rule: rtranclp_induct)
  case base
  then show ?case using assms(2) by blast
next
  case (step u v)
  then obtain b where b: "spec\<^sup>*\<^sup>* a b" "related u b" by blast
  from simulate [OF b(2) step.hyps(2)] obtain c where "c = b \<or> spec b c" "related v c"
    by auto
  with b(1) show ?case
    by (metis rtranclp.rtrancl_into_rtrancl)
qed

lemma runs_no_fault:
  "(\<lambda>s s'. step s (Inr s'))\<^sup>*\<^sup>* s s' \<Longrightarrow> related s a \<Longrightarrow> \<not> step s' (Inl f)"
  using runs_related no_fault by blast

end

section \<open>Systems that come to rest\<close>

text \<open>
  Steps that keep an invariant and use up work, and that are possible until the system is at rest:
  every run is bounded by the work at its start and comes to rest where it ends.
\<close>

locale settling =
  fixes step :: "'s \<Rightarrow> 's \<Rightarrow> bool"
    and inv :: "'s \<Rightarrow> bool"
    and work :: "'s \<Rightarrow> nat"
    and rest :: "'s \<Rightarrow> bool"
  assumes keeps: "inv s \<Longrightarrow> step s s' \<Longrightarrow> inv s'"
    and less_work: "inv s \<Longrightarrow> step s s' \<Longrightarrow> work s' < work s"
    and moves: "inv s \<Longrightarrow> \<not> rest s \<Longrightarrow> \<exists>s'. step s s'"
begin

lemma run: "(step ^^ n) s s' \<Longrightarrow> inv s \<Longrightarrow> inv s' \<and> n + work s' \<le> work s"
proof (induction n arbitrary: s')
  case 0
  then show ?case by simp
next
  case (Suc n)
  then obtain u where u: "(step ^^ n) s u" "step u s'" by auto
  then have "inv u" and "n + work u \<le> work s"
    using Suc by auto
  then show ?case
    using keeps [OF _ u(2)] less_work [OF _ u(2)] by auto
qed

lemma settles:
  assumes "(step ^^ n) s s'" and "inv s"
  shows "n \<le> work s \<and> ((\<exists>s''. step s' s'') \<or> rest s')"
  using run [OF assms] moves [of s'] by auto

lemma ends: "inv s \<Longrightarrow> \<exists>n s'. (step ^^ n) s s' \<and> (\<nexists>s''. step s' s'')"
proof (induction "work s" arbitrary: s rule: less_induct)
  case less
  show ?case
  proof (cases "\<exists>u. step s u")
    case True
    then obtain u where u: "step s u" ..
    from less.hyps [OF less_work [OF less.prems u] keeps [OF less.prems u]]
    obtain n s' where "(step ^^ n) u s'" "\<nexists>s''. step s' s''" by blast
    then show ?thesis
      using relpowp_Suc_I2 [of step s u] u by blast
  next
    case False
    then show ?thesis by (intro exI [of _ 0] exI [of _ s]) simp
  qed
qed

end

declare sbind_eq_Inr [tincan_simps] size_sub_ge [tincan_simps]

end
