(* ===== verification/External.thy ===== *)
theory External
  imports Tincan_Prelude
begin

text \<open>
  What the program takes from outside \<open>src/\<close>: the data types of libjingle and jsoncpp that the
  sources build and pass on (as records and datatypes with the fields the sources use), the
  functions of these libraries (as records of function parameters, with no definition here), and
  the calls the program makes on them and on the network (as the events an operation emits, in
  the order of the code).
\<close>

section \<open>Addresses, candidates, descriptions\<close>

datatype family = AF_UNSPEC | AF_INET | AF_INET6

record sockaddr =
  sa_host :: string
  sa_port :: "16 word"

text \<open>The default-constructed \<open>talk_base::SocketAddress\<close>.\<close>

definition sa_nil :: sockaddr where
  "sa_nil = \<lparr>sa_host = '''', sa_port = 0\<rparr>"

record candidate =
  c_id :: string
  c_component :: int
  c_protocol :: string
  c_address :: sockaddr
  c_priority :: u32
  c_username :: string
  c_password :: string
  c_type :: string
  c_network_name :: string
  c_generation :: u32
  c_foundation :: string

type_synonym fpr = "byte list"

datatype ice_role = ICEROLE_CONTROLLING | ICEROLE_CONTROLLED
datatype conn_role = CONNECTIONROLE_NONE | CONNECTIONROLE_ACTIVE | CONNECTIONROLE_ACTPASS
datatype content_action = CA_OFFER | CA_ANSWER

record tdesc =
  td_ufrag :: string
  td_pwd :: string
  td_role :: conn_role
  td_fingerprint :: "fpr option"
  td_candidates :: "candidate list"

text \<open>One entry of the list of relays of a port allocator (\<open>cricket::RelayServerConfig\<close>).\<close>

datatype relay_proto = PROTO_UDP | PROTO_TCP

record relay_config =
  rc_ports :: "(sockaddr \<times> relay_proto) list"
  rc_username :: string
  rc_password :: string

record port_allocator =
  pa_stun :: sockaddr
  pa_flags :: u32
  pa_relays :: "relay_config list"

text \<open>
  Pointers to transports, their channels, ports and connections. A \<open>std::map\<close> whose keys are
  pointers orders them by address.
\<close>

datatype tref = TRef (tref_addr: nat)

instantiation tref :: linorder
begin

definition less_eq_tref :: "tref \<Rightarrow> tref \<Rightarrow> bool" where
  "less_eq_tref a b \<longleftrightarrow> tref_addr a \<le> tref_addr b"

definition less_tref :: "tref \<Rightarrow> tref \<Rightarrow> bool" where
  "less_tref a b \<longleftrightarrow> tref_addr a < tref_addr b"

instance
  by standard (auto simp: less_eq_tref_def less_tref_def tref.expand)

end

type_synonym cref = nat
type_synonym port_ref = nat
type_synonym conn_ref = nat

section \<open>JSON values\<close>

datatype json = JNull | JBool bool | JInt int | JStr string
  | JArr "json list" | JObj "(string \<times> json) list"

text \<open>\<open>object[key] = value\<close>: jsoncpp keeps the members of an object ordered by key.\<close>

fun jset :: "string \<Rightarrow> json \<Rightarrow> json \<Rightarrow> json" where
  "jset k v (JObj m) = JObj (omap_put k v m)"
| "jset k v _ = JObj [(k, v)]"

fun jmembers :: "json \<Rightarrow> (string \<times> json) list" where
  "jmembers (JObj m) = m"
| "jmembers _ = []"

definition jget :: "json \<Rightarrow> string \<Rightarrow> json option" where
  "jget j k = omap_get (jmembers j) k"

lemma jget_jset [simp]: "jget (jset k v j) = (jget j)(k \<mapsto> v)"
  by (cases j) (simp_all add: jget_def fun_eq_iff)

lemma jget_obj_empty [simp]: "jget (JObj []) = Map.empty"
  by (simp add: jget_def fun_eq_iff)

text \<open>
  The accessors of \<open>Json::Value\<close> and \<open>Json::Reader\<close>: \<open>None\<close> where the library throws. \<open>j_parse\<close>
  returns the result of \<open>parse\<close> and the value it leaves in \<open>root\<close>, also when it fails.
\<close>

record json_api =
  j_parse :: "string \<Rightarrow> bool \<times> json"
  j_member :: "json \<Rightarrow> string \<Rightarrow> json option"
  j_is_member :: "json \<Rightarrow> string \<Rightarrow> bool"
  j_as_string :: "json \<Rightarrow> string option"
  j_as_int :: "json \<Rightarrow> int option"
  j_as_bool :: "json \<Rightarrow> bool option"
  j_size :: "json \<Rightarrow> nat"
  j_is_array :: "json \<Rightarrow> bool"
  j_index :: "json \<Rightarrow> nat \<Rightarrow> json"
  j_styled :: "json \<Rightarrow> string"

text \<open>\<open>root[key].asString()\<close>, \<open>root[key].asInt()\<close>, \<open>root[key].asBool()\<close>.\<close>

definition get_string :: "json_api \<Rightarrow> json \<Rightarrow> string \<Rightarrow> string result" where
  "get_string api root k =
     sbind (from_opt JsonThrow (j_member api root k)) (\<lambda>v. from_opt JsonThrow (j_as_string api v))"

definition get_int :: "json_api \<Rightarrow> json \<Rightarrow> string \<Rightarrow> int result" where
  "get_int api root k =
     sbind (from_opt JsonThrow (j_member api root k)) (\<lambda>v. from_opt JsonThrow (j_as_int api v))"

definition get_bool :: "json_api \<Rightarrow> json \<Rightarrow> string \<Rightarrow> bool result" where
  "get_bool api root k =
     sbind (from_opt JsonThrow (j_member api root k)) (\<lambda>v. from_opt JsonThrow (j_as_bool api v))"

section \<open>Functions of libjingle\<close>

text \<open>
  \<open>hex_decode\<close> gives the content of the 20-byte buffer after \<open>hex_decode(buf, 20, s)\<close>;
  \<open>addr_from_string\<close> and \<open>addr_make\<close> the address after \<open>FromString\<close> on a fresh one and of the
  constructor from a host and a port; \<open>make_fpr\<close> the fingerprint that \<open>SSLFingerprint::Create\<close>
  makes of the identity generated for a name, \<open>parse_fpr\<close> that of \<open>CreateFromRfc4572\<close>, both
  \<open>None\<close> for a null pointer.
\<close>

record jingle =
  hex_encode :: "byte list \<Rightarrow> string"
  hex_decode :: "string \<Rightarrow> byte list"
  split_at :: "string \<Rightarrow> char \<Rightarrow> string list"
  addr_from_string :: "string \<Rightarrow> sockaddr"
  addr_make :: "string \<Rightarrow> int \<Rightarrow> sockaddr"
  addr_set_ip :: "string \<Rightarrow> sockaddr \<Rightarrow> sockaddr"
  addr_family :: "sockaddr \<Rightarrow> family"
  ip_to_string :: "sockaddr \<Rightarrow> string"
  addr_to_string :: "sockaddr \<Rightarrow> string"
  make_fpr :: "string \<Rightarrow> fpr option"
  show_fpr :: "fpr \<Rightarrow> string"
  parse_fpr :: "string \<Rightarrow> fpr option"

text \<open>What the objects of libjingle answer when they are asked, at one moment of a run.\<close>

record tstate =
  tp_readable :: "tref \<Rightarrow> bool"
  tp_writable :: "tref \<Rightarrow> bool"
  tp_was_writable :: "tref \<Rightarrow> bool"
  tp_channel :: "tref \<Rightarrow> cref option"
  ch_ports :: "cref \<Rightarrow> port_ref list"

text \<open>The settings of the XMPP client that \<open>XmppNetwork::Login\<close> fills in.\<close>

record xmpp_settings =
  xc_user :: string
  xc_host :: string
  xc_resource :: string
  xc_tls_required :: bool
  xc_pass :: string
  xc_server :: sockaddr

section \<open>Events\<close>

datatype sock = Sock4 | Sock6

datatype tcall = SetIceTiebreaker u64 | SetIceRole ice_role
  | SetLocalDesc tdesc content_action | SetRemoteDesc tdesc content_action
  | CreateChannel | ConnectChannels | SignalingReady | RemoteCandidates "candidate list"

datatype tap_call = TapSetIpv4 string int | TapSetIpv6 string int | TapSetMtu | TapSetBaseFlags
  | TapSetUp | TapUnsetNoarp | PeerlistSetLocal "byte list" string string | SetSubnetMask int int

datatype io_event = UdpSend sock "byte list" sockaddr
  | XmppSend string string string
  | XmppDoLogin xmpp_settings | XmppDoDisconnect | XmppSendPresence | XmppStartTasks
  | NewTransport tref bool | TransportCall tref tcall | DeleteTransport tref
  | ChannelSend cref "byte list"
  | PostQueueSignal
  | TapCall tap_call | OverrideBaseIpv4 string | PeerlistAddByUid "byte list"
  | PeerlistAdd "byte list" string string
  | PortConnect port_ref | PruneConnection conn_ref
  | SetIgnoreList "string list" | SetLogLevel int

text \<open>An operation with effects: the state it leaves and the events it emits, or a fault.\<close>

type_synonym 's step = "('s \<times> io_event list) result"

text \<open>Sequencing of operations with effects.\<close>

definition ebind :: "'s step \<Rightarrow> ('s \<Rightarrow> 't step) \<Rightarrow> 't step" where
  "ebind m f = sbind m (\<lambda>(s, es). sbind (f s) (\<lambda>(s', es'). Inr (s', es @ es')))"

lemma ebind_Inl [simp]: "ebind (Inl e) f = Inl e"
  by (simp add: ebind_def)

lemma ebind_Inr: "ebind (Inr (s, es)) f = sbind (f s) (\<lambda>(s', es'). Inr (s', es @ es'))"
  by (simp add: ebind_def)

lemma ebind_Inr_Inr [simp]: "f s = Inr (s', es') \<Longrightarrow> ebind (Inr (s, es)) f = Inr (s', es @ es')"
  by (simp add: ebind_def)

lemma ebind_Inr_Inl [simp]: "f s = Inl e \<Longrightarrow> ebind (Inr (s, es)) f = Inl e"
  by (simp add: ebind_def)

lemma ebind_Inr_Nil [simp]: "ebind (Inr (s, [])) f = f s"
  by (cases "f s") (auto simp: ebind_def)

lemma ebind_eq_Inr:
  "ebind m f = Inr (t, es) \<longleftrightarrow>
     (\<exists>s es1 es2. m = Inr (s, es1) \<and> f s = Inr (t, es2) \<and> es = es1 @ es2)"
  by (cases m) (auto simp: ebind_def sbind_eq_Inr)

lemma ebind_assoc: "ebind (ebind m f) g = ebind m (\<lambda>s. ebind (f s) g)"
  by (cases m) (auto simp: ebind_def sbind_def split: sum.splits prod.splits)

text \<open>The calls made on one transport, and the datagrams sent, among the events.\<close>

fun calls_on :: "tref \<Rightarrow> io_event list \<Rightarrow> tcall list" where
  "calls_on t [] = []"
| "calls_on t (TransportCall u c # es) = (if u = t then c # calls_on t es else calls_on t es)"
| "calls_on t (_ # es) = calls_on t es"

text \<open>The events that carry a message to a peer or to the controller.\<close>

fun is_network :: "io_event \<Rightarrow> bool" where
  "is_network (UdpSend s b a) = True"
| "is_network (XmppSend j d t) = True"
| "is_network (ChannelSend c b) = True"
| "is_network _ = False"

lemma calls_on_append [simp]: "calls_on t (es @ es') = calls_on t es @ calls_on t es'"
  by (induction t es rule: calls_on.induct) auto

declare ebind_eq_Inr [tincan_simps]

end
