(* ===== verification/Signaling.thy ===== *)
theory Signaling
  imports External
begin

text \<open>
  \<open>PeerSignalSenderInterface\<close> (\<open>src/peersignalsender.h\<close>), the interface through which the
  connection manager sends signalling messages, as a locale; and \<open>PeerSignalSender\<close>
  (\<open>src/tincanconnectionmanager.h\<close>), which dispatches a message to the service registered for
  its overlay.
\<close>

section \<open>The interface\<close>

text \<open>\<open>SendToPeer(overlay_id, uid, data, type)\<close> on an object whose state is of type \<open>'s\<close>.\<close>

type_synonym 's sender = "int \<Rightarrow> string \<Rightarrow> string \<Rightarrow> string \<Rightarrow> 's \<Rightarrow> 's step"

record signal =
  sg_overlay :: int
  sg_uid :: string
  sg_data :: string
  sg_type :: string

fun send_all :: "'s sender \<Rightarrow> signal list \<Rightarrow> 's \<Rightarrow> 's step" where
  "send_all send [] s = Inr (s, [])"
| "send_all send (g # gs) s =
     ebind (send (sg_overlay g) (sg_uid g) (sg_data g) (sg_type g) s) (send_all send gs)"

text \<open>
  What every implementation promises: a call sends at most one message to the network and does
  nothing else outside, and it leaves the part of the state that its clients observe as it is.
\<close>

locale signal_sender =
  fixes send :: "'s sender"
    and observed :: "'s \<Rightarrow> 'o"
  assumes send_network: "send ov uid data type s = Inr (s', es) \<Longrightarrow> length es \<le> 1 \<and> list_all is_network es"
    and send_frame: "send ov uid data type s = Inr (s', es) \<Longrightarrow> observed s' = observed s"
begin

lemma send_all_frame:
  "send_all send gs s = Inr (s', es) \<Longrightarrow>
     observed s' = observed s \<and> length es \<le> length gs \<and> list_all is_network es"
proof (induction gs arbitrary: s es)
  case Nil
  then show ?case by simp
next
  case (Cons g gs)
  from Cons.prems obtain s1 e1 e2
    where 1: "send (sg_overlay g) (sg_uid g) (sg_data g) (sg_type g) s = Inr (s1, e1)"
      and 2: "send_all send gs s1 = Inr (s', e2)" and es: "es = e1 @ e2"
    by (auto simp: ebind_eq_Inr)
  from Cons.IH [OF 2] send_network [OF 1] send_frame [OF 1] es
  show ?case by simp
qed

end

section \<open>The dispatcher\<close>

text \<open>
  The two objects \<open>main\<close> registers: the controller access for overlay 0 and the XMPP network for
  overlay 1. The map holds pointers, \<open>None\<close> is the null pointer.
\<close>

datatype service = SvcController | SvcXmpp

type_synonym service_map = "int \<rightharpoonup> service option"

definition add_service :: "int \<Rightarrow> service \<Rightarrow> service_map \<Rightarrow> service_map" where
  "add_service overlay_id svc m = m(overlay_id \<mapsto> Some svc)"

text \<open>
  \<open>service_map_[overlay_id]->SendToPeer(...)\<close>: an overlay without a service inserts a null pointer
  and calls through it.
\<close>

definition PeerSignalSender_SendToPeer ::
  "(service \<Rightarrow> 's sender) \<Rightarrow> (service_map \<times> 's) sender" where
  "PeerSignalSender_SendToPeer call overlay_id uid data type st =
     (case st of (m, s) \<Rightarrow>
        (case map_index m overlay_id None of
           (None, m') \<Rightarrow> Inl NullDeref
         | (Some svc, m') \<Rightarrow>
             ebind (call svc overlay_id uid data type s) (\<lambda>s'. Inr ((m', s'), []))))"

lemma dispatch_registered:
  "m ov = Some (Some svc) \<Longrightarrow> PeerSignalSender_SendToPeer call ov uid data type (m, s) =
     ebind (call svc ov uid data type s) (\<lambda>s'. Inr ((m, s'), []))"
  by (simp add: PeerSignalSender_SendToPeer_def)

lemma dispatch_unregistered:
  "m ov = None \<or> m ov = Some None \<Longrightarrow>
     PeerSignalSender_SendToPeer call ov uid data type (m, s) = Inl NullDeref"
  by (auto simp: PeerSignalSender_SendToPeer_def)

lemma dispatch_eq_Inr:
  "PeerSignalSender_SendToPeer call ov uid data type (m, s) = Inr ((m', s'), es) \<longleftrightarrow>
     (\<exists>svc. m ov = Some (Some svc) \<and> m' = m \<and> call svc ov uid data type s = Inr (s', es))"
  by (auto simp: PeerSignalSender_SendToPeer_def map_index_def ebind_eq_Inr
      split: option.splits)

text \<open>The service map after \<open>main\<close>'s two registrations.\<close>

definition main_services :: service_map where
  "main_services = add_service 1 SvcXmpp (add_service 0 SvcController Map.empty)"

lemma main_services_simps [simp]:
  "main_services 0 = Some (Some SvcController)" "main_services 1 = Some (Some SvcXmpp)"
  "ov \<noteq> 0 \<Longrightarrow> ov \<noteq> 1 \<Longrightarrow> main_services ov = None"
  by (simp_all add: main_services_def add_service_def)

end
