(* ===== verification/Wire.thy ===== *)
theory Wire
  imports Tincan_Prelude
begin

text \<open>
  The wire format between tincan and the controller: the constants of \<open>src/tincan_utils.h\<close> and
  \<open>src/peersignalsender.h\<close>, the messages tincan builds (a version byte, a type byte, the
  payload) as writes into freshly allocated memory, and how the receiver takes them apart.
\<close>

section \<open>Constants\<close>

definition kIpopVer :: byte where "kIpopVer = 3"
definition kTincanControl :: byte where "kTincanControl = 1"
definition kTincanPacket :: byte where "kTincanPacket = 2"
definition kICCControl :: byte where "kICCControl = 3"
definition kICCPacket :: byte where "kICCPacket = 4"

definition kTincanVerOffset :: nat where "kTincanVerOffset = 0"
definition kTincanMsgTypeOffset :: nat where "kTincanMsgTypeOffset = 1"
definition kTincanHeaderSize :: nat where "kTincanHeaderSize = 2"
definition kICCMacOffset :: nat where "kICCMacOffset = 5"

definition kHeaderSize :: nat where "kHeaderSize = 40"
definition kIdSize :: nat where "kIdSize = 40"
definition kIdBytesLen :: nat where "kIdBytesLen = 20"
definition kShortLen :: nat where "kShortLen = 8"

lemmas type_consts = kTincanControl_def kTincanPacket_def kICCControl_def kICCPacket_def
lemmas offset_consts = kTincanVerOffset_def kTincanMsgTypeOffset_def kTincanHeaderSize_def
  kICCMacOffset_def
lemmas size_consts = kHeaderSize_def kIdSize_def kIdBytesLen_def kShortLen_def

section \<open>Building a message\<close>

text \<open>
  \<open>new char[n]\<close> holds whatever the memory held before (\<open>junk\<close>, by offset); \<open>memcpy\<close> overwrites
  the bytes from an offset on.
\<close>

definition new_chars :: "(nat \<Rightarrow> byte) \<Rightarrow> nat \<Rightarrow> byte list" where
  "new_chars junk n = map junk [0..<n]"

definition memcpy_at :: "'a list \<Rightarrow> nat \<Rightarrow> 'a list \<Rightarrow> 'a list" where
  "memcpy_at msg off src = take off msg @ src @ drop (off + length src) msg"

text \<open>
  The message around \<open>data\<close>: allocated with the header's two bytes more, the version stored, the
  type stored where the code stores one (\<open>None\<close>: no store), the payload copied behind.
\<close>

definition build_msg :: "(nat \<Rightarrow> byte) \<Rightarrow> byte option \<Rightarrow> byte list \<Rightarrow> byte list" where
  "build_msg junk type data =
     (let msg = new_chars junk (length data + kTincanHeaderSize);
          msg = msg[kTincanVerOffset := kIpopVer];
          msg = (case type of None \<Rightarrow> msg | Some t \<Rightarrow> msg[kTincanMsgTypeOffset := t])
      in memcpy_at msg kTincanHeaderSize data)"

lemma new_chars_header:
  "new_chars junk (n + kTincanHeaderSize) = junk 0 # junk 1 # map junk [2..<n + 2]"
proof -
  have "[0..<n + 2] = 0 # 1 # [2..<n + 2]"
    by (simp add: upt_conv_Cons numeral_2_eq_2 del: upt_Suc)
  then show ?thesis
    by (simp add: new_chars_def offset_consts)
qed

lemma memcpy_at_header:
  "length rest = length src \<Longrightarrow> memcpy_at (a # b # rest) kTincanHeaderSize src = a # b # src"
  by (simp add: memcpy_at_def offset_consts)

lemma build_msg_Some [simp]: "build_msg junk (Some t) data = kIpopVer # t # data"
  by (simp add: build_msg_def new_chars_header kTincanVerOffset_def
      kTincanMsgTypeOffset_def memcpy_at_header del: upt_Suc)

lemma build_msg_None [simp]: "build_msg junk None data = kIpopVer # junk 1 # data"
  by (simp add: build_msg_def new_chars_header kTincanVerOffset_def
      kTincanMsgTypeOffset_def memcpy_at_header del: upt_Suc)

section \<open>The framing interface\<close>

text \<open>
  What the receiver relies on: whatever the receive buffer holds behind a message, reading the type
  and, with the length of the datagram, the payload gives back what the message was built from.
\<close>

locale framing =
  fixes encode :: "'t \<Rightarrow> 'p \<Rightarrow> 'b list"
    and dec_type :: "'b list \<Rightarrow> 't result"
    and dec_payload :: "'b list \<Rightarrow> nat \<Rightarrow> 'p result"
  assumes dec_type_encode: "dec_type (encode t p @ stale) = Inr t"
    and dec_payload_encode: "length (encode t p) < 2 ^ 64 \<Longrightarrow>
      dec_payload (encode t p @ stale) (length (encode t p)) = Inr p"
begin

lemma encode_inject:
  "length (encode t p) < 2 ^ 64 \<Longrightarrow> encode t p = encode u q \<longleftrightarrow> t = u \<and> p = q"
  by (metis dec_type_encode dec_payload_encode sum.inject(2))

end

definition msg_type :: "byte list \<Rightarrow> byte result" where
  "msg_type mem = mem_byte mem kTincanMsgTypeOffset"

definition msg_payload :: "byte list \<Rightarrow> nat \<Rightarrow> byte list result" where
  "msg_payload mem len = mem_read (drop kTincanHeaderSize mem) (size_sub len kTincanHeaderSize)"

interpretation msg: framing "\<lambda>t p. build_msg junk (Some t) p" msg_type msg_payload for junk
  by unfold_locales
    (simp_all add: msg_type_def msg_payload_def mem_byte_def mem_read_def size_sub_ge offset_consts)

end
