(* ===== verification/Instances.thy ===== *)
theory Instances
  imports External
begin

text \<open>
  One concrete instance of the functions of libjingle that the model takes as parameters. The
  properties hold for every instance that satisfies their hypotheses; this one shows that the
  hypotheses can hold, in the witnesses, and is used nowhere else.
\<close>

definition hex_digit :: "nat \<Rightarrow> char" where
  "hex_digit n = char_of (if n < 10 then 48 + n else 87 + n)"

definition hex_byte :: "byte \<Rightarrow> string" where
  "hex_byte b = [hex_digit (unat b div 16), hex_digit (unat b mod 16)]"

definition hex_encode0 :: "byte list \<Rightarrow> string" where
  "hex_encode0 bs = concat (map hex_byte bs)"

definition hex_value :: "char \<Rightarrow> nat" where
  "hex_value c = (let n = of_char c in if n < 58 then n - 48 else n - 87)"

fun hex_decode0 :: "string \<Rightarrow> byte list" where
  "hex_decode0 (a # b # s) = of_nat (16 * hex_value a + hex_value b) # hex_decode0 s"
| "hex_decode0 _ = []"

fun split0 :: "string \<Rightarrow> char \<Rightarrow> string list" where
  "split0 [] c = [[]]"
| "split0 (x # s) c =
     (if x = c then [] # split0 s c
      else (case split0 s c of [] \<Rightarrow> [[x]] | w # ws \<Rightarrow> (x # w) # ws))"

definition jingle0 :: jingle where
  "jingle0 = \<lparr>hex_encode = hex_encode0, hex_decode = hex_decode0, split_at = split0,
     addr_from_string = (\<lambda>s. \<lparr>sa_host = s, sa_port = 0\<rparr>),
     addr_make = (\<lambda>h p. \<lparr>sa_host = h, sa_port = of_int p\<rparr>),
     addr_set_ip = (\<lambda>h a. a\<lparr>sa_host := h\<rparr>),
     addr_family = (\<lambda>a. if sa_host a = [] then AF_UNSPEC
       else if CHR '':'' \<in> set (sa_host a) then AF_INET6 else AF_INET),
     ip_to_string = sa_host, addr_to_string = sa_host,
     make_fpr = (\<lambda>n. Some (bytes_of_string n)), show_fpr = string_of_bytes,
     parse_fpr = (\<lambda>s. Some (bytes_of_string s))\<rparr>"

lemma split0_word: "c \<notin> set w \<Longrightarrow> split0 w c = [w]"
  by (induction w) auto

lemma split0_append: "c \<notin> set w \<Longrightarrow> split0 (w @ c # s) c = w # split0 s c"
  by (induction w) auto

end
