(* ===== verification/Link_Manager.thy ===== *)
theory Link_Manager
  imports Signaling Wire Instances
begin

text \<open>
  The state of \<open>TinCanConnectionManager\<close> (\<open>src/tincanconnectionmanager.h\<close>, \<open>.cc\<close>) and the
  operations on the link-setup thread that set up the node, create and destroy the transport of
  a peer, assign addresses and report the state of a link. The tables that relate peers, their
  transports and the shortened ids of the packet headers are kept consistent by an invariant.
\<close>

section \<open>State\<close>

definition kIpv4 :: string where "kIpv4 = ''172.31.0.100''"
definition kIpv6 :: string where "kIpv6 = ''fd50:0dbc:41f2:4a3c:0000:0000:0000:0000''"
definition kFprNull :: string where
  "kFprNull = ''00:00:00:00:00:00:00:00:00:00:00:00:00:00:00:00:00:00:00:00''"
definition kIceUfrag :: string where "kIceUfrag = ''ufrag''"
definition kIcePwd :: string where "kIcePwd = ''pwd''"
definition kFlags :: u32 where "kFlags = 0"
definition kLocalControllerId :: int where "kLocalControllerId = 0"
definition kTapDesc :: string where "kTapDesc = ''TAP''"
definition kConStat :: string where "kConStat = ''con_stat''"
definition kConResp :: string where "kConResp = ''con_resp''"

text \<open>\<open>PeerState\<close>: the owned transport, and the channel in it, are pointers.\<close>

record peer_state =
  ps_overlay_id :: int
  ps_last_time :: u32
  ps_uid :: string
  ps_fingerprint :: string
  ps_connection_security :: string
  ps_transport :: tref
  ps_port_allocator :: port_allocator
  ps_remote_fingerprint :: "fpr option"
  ps_local_description :: tdesc
  ps_remote_description :: tdesc
  ps_channel :: cref
  ps_candidates :: "candidate list"
  ps_candidate_list :: "string set"

record peer_ips =
  pi_ip4 :: string
  pi_ip6 :: string

text \<open>
  The manager. \<open>live\<close> are the transports that exist: what \<open>new\<close> returned and no destructor has
  run on. \<open>forward_socket\<close> is a pointer the constructor leaves unset.
\<close>

record mgr =
  uid_map :: "string \<rightharpoonup> peer_state"
  short_uid_map :: "string \<rightharpoonup> tref"
  transport_map :: "tref \<rightharpoonup> string"
  ip_map :: "string \<rightharpoonup> peer_ips"
  live :: "tref set"
  tincan_id :: string
  identity :: "string option"
  local_fingerprint :: "fpr option"
  fingerprint :: string
  tiebreaker :: u64
  tincan_ip4 :: string
  tincan_ip6 :: string
  tap_name :: string
  forward_socket :: "sock option"
  forward_addr :: sockaddr
  trim_enabled :: bool
  ignore_list :: "string list"

definition mgr_new :: "u64 \<Rightarrow> string \<Rightarrow> mgr" where
  "mgr_new random tapname =
     \<lparr>uid_map = Map.empty, short_uid_map = Map.empty, transport_map = Map.empty, ip_map = Map.empty,
      live = {}, tincan_id = '''', identity = None, local_fingerprint = None,
      fingerprint = kFprNull, tiebreaker = random, tincan_ip4 = kIpv4, tincan_ip6 = kIpv6,
      tap_name = tapname, forward_socket = None, forward_addr = sa_nil, trim_enabled = False,
      ignore_list = []\<rparr>"

text \<open>The setters of the header.\<close>

definition set_ip :: "string \<Rightarrow> mgr \<Rightarrow> mgr" where
  "set_ip ip m = m\<lparr>tincan_ip4 := ip\<rparr>"

definition set_forward_addr :: "sockaddr \<Rightarrow> mgr \<Rightarrow> mgr" where
  "set_forward_addr addr m = m\<lparr>forward_addr := addr\<rparr>"

definition set_forward_socket :: "sock \<Rightarrow> mgr \<Rightarrow> mgr" where
  "set_forward_socket socket m = m\<lparr>forward_socket := Some socket\<rparr>"

definition set_trim_connection :: "bool \<Rightarrow> mgr \<Rightarrow> mgr" where
  "set_trim_connection trim m = m\<lparr>trim_enabled := trim\<rparr>"

definition set_network_ignore_list :: "string list \<Rightarrow> mgr \<Rightarrow> mgr \<times> io_event list" where
  "set_network_ignore_list l m = (m\<lparr>ignore_list := l\<rparr>, [SetIgnoreList l])"

section \<open>Setting up the node\<close>

text \<open>
  The calls of ipop-tap that \<open>Setup\<close> makes (Linux and Android builds; the operands of the
  expression that sets the MTU, the base flags and the interface up are taken from left to
  right), and the \<open>or\<close> of their results.
\<close>

definition setup_calls :: "jingle \<Rightarrow> string \<Rightarrow> string \<Rightarrow> int \<Rightarrow> string \<Rightarrow> int \<Rightarrow> int \<Rightarrow> int \<Rightarrow> tap_call list" where
  "setup_calls jg uid ip4 ip4_mask ip6 ip6_mask subnet_mask switchmode =
     [TapSetIpv4 ip4 ip4_mask, TapSetIpv6 ip6 ip6_mask, TapSetMtu, TapSetBaseFlags, TapSetUp] @
     (if switchmode \<noteq> 0 then [TapUnsetNoarp] else []) @
     [PeerlistSetLocal (hex_decode jg uid) ip4 ip6, SetSubnetMask ip4_mask subnet_mask]"

definition Setup ::
  "jingle \<Rightarrow> bool \<Rightarrow> (tap_call \<Rightarrow> u32) \<Rightarrow> string \<Rightarrow> string \<Rightarrow> int \<Rightarrow> string \<Rightarrow> int \<Rightarrow> int \<Rightarrow> int \<Rightarrow> mgr \<Rightarrow> mgr step"
where
  "Setup jg debug tap uid ip4 ip4_mask ip6 ip6_mask subnet_mask switchmode m =
     (if tincan_id m \<noteq> [] \<or> length uid \<noteq> kIdSize then Inr (m, [])
      else
        (let m = m\<lparr>tincan_id := uid, identity := Some uid, local_fingerprint := make_fpr jg uid\<rparr>;
             m = (case local_fingerprint m of None \<Rightarrow> m | Some f \<Rightarrow> m\<lparr>fingerprint := show_fpr jg f\<rparr>);
             calls = setup_calls jg uid ip4 ip4_mask ip6 ip6_mask subnet_mask switchmode;
             error = fold (\<lambda>c e. or e (tap c)) calls 0
         in if debug \<and> error \<noteq> 0 then Inl AssertFailed
            else Inr (m\<lparr>tincan_ip4 := ip4, tincan_ip6 := ip6\<rparr>, map TapCall calls)))"

section \<open>Creating and destroying links\<close>

definition SetRelay :: "jingle \<Rightarrow> string \<Rightarrow> string \<Rightarrow> string \<Rightarrow> peer_state \<Rightarrow> bool \<times> peer_state" where
  "SetRelay jg turn_server username password ps =
     (if turn_server = [] \<or> username = [] then (False, ps)
      else
        (let turn_addr = addr_from_string jg turn_server;
             relay_config_udp = \<lparr>rc_ports = [(turn_addr, PROTO_UDP)], rc_username = username,
               rc_password = password\<rparr>;
             pa = ps_port_allocator ps
         in (True,
             if rc_username relay_config_udp \<noteq> []
             then ps\<lparr>ps_port_allocator := pa\<lparr>pa_relays := pa_relays pa @ [relay_config_udp]\<rparr>\<rparr>
             else ps)))"

text \<open>
  \<open>SetupTransport\<close>: the descriptions of both sides, and the calls on the transport. The peer with
  the greater id is the ICE-controlling one and offers.
\<close>

definition SetupTransport :: "jingle \<Rightarrow> mgr \<Rightarrow> peer_state \<Rightarrow> peer_state \<times> tcall list" where
  "SetupTransport jg m ps =
     (let ps = ps\<lparr>ps_remote_fingerprint := parse_fpr jg (ps_fingerprint ps)\<rparr>;
          conn_role_local = (if 0 < str_compare (ps_uid ps) (tincan_id m)
            then CONNECTIONROLE_ACTIVE else CONNECTIONROLE_ACTPASS);
          local_d = \<lparr>td_ufrag = kIceUfrag, td_pwd = kIcePwd, td_role = conn_role_local,
            td_fingerprint = local_fingerprint m, td_candidates = ps_candidates ps\<rparr>;
          remote_d = \<lparr>td_ufrag = kIceUfrag, td_pwd = kIcePwd, td_role = CONNECTIONROLE_NONE,
            td_fingerprint = ps_remote_fingerprint ps, td_candidates = ps_candidates ps\<rparr>;
          ps = ps\<lparr>ps_local_description := local_d, ps_remote_description := remote_d\<rparr>
      in (ps,
          SetIceTiebreaker (tiebreaker m) #
          (if str_compare (ps_uid ps) (tincan_id m) < 0
           then [SetIceRole ICEROLE_CONTROLLING, SetLocalDesc local_d CA_OFFER,
                 SetRemoteDesc remote_d CA_ANSWER]
           else [SetIceRole ICEROLE_CONTROLLED, SetRemoteDesc remote_d CA_OFFER,
                 SetLocalDesc local_d CA_ANSWER])))"

text \<open>The shortened id: \<open>substr(0, kShortLen * 2)\<close>.\<close>

definition sub_uid :: "string \<Rightarrow> string" where
  "sub_uid uid = take (kShortLen * 2) uid"

definition InsertTransportMap_w :: "string \<Rightarrow> tref \<Rightarrow> mgr \<Rightarrow> mgr" where
  "InsertTransportMap_w sub t m = m\<lparr>short_uid_map := (short_uid_map m)(sub \<mapsto> t)\<rparr>"

definition DeleteTransportMap_w :: "string \<Rightarrow> mgr \<Rightarrow> mgr" where
  "DeleteTransportMap_w sub m =
     (if short_uid_map m sub = None then m
      else m\<lparr>short_uid_map := (short_uid_map m)(sub := None)\<rparr>)"

text \<open>The arguments of a \<open>create_link\<close> request.\<close>

record link_args =
  la_fingerprint :: string
  la_overlay_id :: int
  la_stun_server :: string
  la_turn_server :: string
  la_turn_user :: string
  la_turn_pass :: string
  la_sec_enabled :: bool

text \<open>
  The new peer of \<open>CreateTransport\<close> up to the choice of the transport: \<open>new_t\<close> and \<open>new_ch\<close> are
  the addresses of the new transport and of its channel.
\<close>

definition new_peer :: "jingle \<Rightarrow> u32 \<Rightarrow> tref \<Rightarrow> cref \<Rightarrow> string \<Rightarrow> link_args \<Rightarrow> peer_state" where
  "new_peer jg now new_t new_ch uid a =
     snd (SetRelay jg (la_turn_server a) (la_turn_user a) (la_turn_pass a)
       \<lparr>ps_overlay_id = la_overlay_id a, ps_last_time = now, ps_uid = uid,
        ps_fingerprint = la_fingerprint a, ps_connection_security = '''', ps_transport = new_t,
        ps_port_allocator = \<lparr>pa_stun = addr_from_string jg (la_stun_server a), pa_flags = kFlags,
          pa_relays = []\<rparr>,
        ps_remote_fingerprint = None,
        ps_local_description = \<lparr>td_ufrag = '''', td_pwd = '''', td_role = CONNECTIONROLE_NONE,
          td_fingerprint = None, td_candidates = []\<rparr>,
        ps_remote_description = \<lparr>td_ufrag = '''', td_pwd = '''', td_role = CONNECTIONROLE_NONE,
          td_fingerprint = None, td_candidates = []\<rparr>,
        ps_channel = new_ch, ps_candidates = [], ps_candidate_list = {}\<rparr>)"

text \<open>
  \<open>CreateTransport\<close> up to the tables: \<open>None\<close> for a link that exists or an own id. The transport is
  made, its channel and signals are connected and it starts to look for candidates.
\<close>

definition create_build ::
  "jingle \<Rightarrow> u32 \<Rightarrow> tref \<Rightarrow> cref \<Rightarrow> string \<Rightarrow> link_args \<Rightarrow> mgr \<Rightarrow> (peer_state \<times> mgr \<times> io_event list) option"
where
  "create_build jg now new_t new_ch uid a m =
     (if uid_map m uid \<noteq> None \<or> tincan_id m = uid then None
      else
        (let secure = (la_sec_enabled a \<and> local_fingerprint m \<noteq> None \<and>
               str_compare (la_fingerprint a) kFprNull \<noteq> 0);
             ps = (new_peer jg now new_t new_ch uid a)
               \<lparr>ps_connection_security := (if secure then ''dtls'' else ''none'')\<rparr>;
             (ps, calls) = SetupTransport jg m ps
         in Some (ps, m\<lparr>live := insert new_t (live m)\<rparr>,
             NewTransport new_t secure #
             map (TransportCall new_t) (CreateChannel # calls @ [ConnectChannels]))))"

definition create_publish :: "string \<Rightarrow> peer_state \<Rightarrow> mgr \<Rightarrow> mgr" where
  "create_publish uid ps m =
     m\<lparr>uid_map := (uid_map m)(uid \<mapsto> ps),
       transport_map := (transport_map m)(ps_transport ps \<mapsto> uid)\<rparr>"

text \<open>
  The whole of \<open>CreateTransport\<close> on its own: the last step is invoked on the packet-handling
  thread, whose steps \<open>Link_Threads\<close> interleaves with these.
\<close>

definition CreateTransport ::
  "jingle \<Rightarrow> u32 \<Rightarrow> tref \<Rightarrow> cref \<Rightarrow> string \<Rightarrow> link_args \<Rightarrow> mgr \<Rightarrow> bool \<times> mgr \<times> io_event list" where
  "CreateTransport jg now new_t new_ch uid a m =
     (case create_build jg now new_t new_ch uid a m of
        None \<Rightarrow> (False, m, [])
      | Some (ps, m, es) \<Rightarrow>
          (True, InsertTransportMap_w (sub_uid uid) (ps_transport ps) (create_publish uid ps m), es))"

text \<open>
  \<open>DestroyTransport\<close> after the invoked \<open>DeleteTransportMap_w\<close>: the tables of the link-setup thread,
  then, with the last reference to the peer, the transport.
\<close>

definition destroy_unlink :: "string \<Rightarrow> peer_state \<Rightarrow> mgr \<Rightarrow> mgr" where
  "destroy_unlink uid peer m =
     m\<lparr>transport_map := (transport_map m)(ps_transport peer := None),
       uid_map := (uid_map m)(uid := None)\<rparr>"

definition destroy_free :: "tref \<Rightarrow> mgr \<Rightarrow> mgr \<times> io_event list" where
  "destroy_free t m = (m\<lparr>live := live m - {t}\<rparr>, [DeleteTransport t])"

definition DestroyTransport :: "string \<Rightarrow> mgr \<Rightarrow> bool \<times> mgr \<times> io_event list" where
  "DestroyTransport uid m =
     (case uid_map m uid of
        None \<Rightarrow> (False, m, [])
      | Some peer \<Rightarrow>
          (True, destroy_free (ps_transport peer)
             (destroy_unlink uid peer (DeleteTransportMap_w (sub_uid uid) m))))"

definition AddIPMapping :: "jingle \<Rightarrow> string \<Rightarrow> string \<Rightarrow> string \<Rightarrow> mgr \<Rightarrow> bool \<times> mgr \<times> io_event list" where
  "AddIPMapping jg uid ip4 ip6 m =
     (if ip4 = [] \<or> ip6 = [] \<or> length uid \<noteq> kIdSize \<or> ip_map m uid \<noteq> None then (False, m, [])
      else (True, m\<lparr>ip_map := (ip_map m)(uid \<mapsto> \<lparr>pi_ip4 = ip4, pi_ip6 = ip6\<rparr>)\<rparr>,
            [OverrideBaseIpv4 ip4,
             if ip4 = ''127.0.0.1'' then PeerlistAddByUid (hex_decode jg uid)
             else PeerlistAdd (hex_decode jg uid) ip4 ip6]))"

section \<open>Signals of networks, transports and ports\<close>

record network =
  nw_name :: string
  nw_description :: string
  nw_ips :: "sockaddr list"

text \<open>
  \<open>OnNetworksChanged\<close> on the networks that \<open>GetNetworks\<close> returns: the tap device keeps one
  address only.
\<close>

definition is_tap_network :: "string \<Rightarrow> network \<Rightarrow> bool result" where
  "is_tap_network kTapName n =
     (if str_compare (nw_name n) kTapName = 0 then Inr True
      else sbind (str_compare_sub (nw_description n) 0 3 kTapDesc) (\<lambda>c. Inr (c = 0)))"

fun OnNetworksChanged :: "jingle \<Rightarrow> string \<Rightarrow> mgr \<Rightarrow> network list \<Rightarrow> network list result" where
  "OnNetworksChanged jg kTapName m [] = Inr []"
| "OnNetworksChanged jg kTapName m (n # ns) =
     sbind (is_tap_network kTapName n) (\<lambda>tap.
     sbind (OnNetworksChanged jg kTapName m ns) (\<lambda>ns'.
       Inr ((if tap then n\<lparr>nw_ips := [addr_make jg (tincan_ip6 m) 0]\<rparr> else n) # ns')))"

definition OnRequestSignaling :: "tref \<Rightarrow> mgr \<Rightarrow> mgr step" where
  "OnRequestSignaling t m =
     (if t \<in> live m then Inr (m, [TransportCall t SignalingReady]) else Inl UseAfterFree)"

text \<open>\<open>relay_type\<close> is libjingle's \<open>RELAY_PORT_TYPE\<close>.\<close>

definition HandleConnectionSignal :: "string \<Rightarrow> string \<Rightarrow> conn_ref \<Rightarrow> mgr \<Rightarrow> io_event list" where
  "HandleConnectionSignal relay_type port_type connection m =
     (if trim_enabled m \<and> port_type = relay_type then [PruneConnection connection] else [])"

text \<open>
  \<open>OnRWChangeState\<close>: the state of the signalling services is threaded through \<open>SendToPeer\<close>.
\<close>

definition link_status :: "tstate \<Rightarrow> tref \<Rightarrow> string" where
  "link_status ts t =
     (if tp_readable ts t \<and> tp_writable ts t then ''online''
      else if tp_was_writable ts t then ''offline'' else ''unknown'')"

definition OnRWChangeState :: "'s sender \<Rightarrow> tstate \<Rightarrow> tref \<Rightarrow> mgr \<times> 's \<Rightarrow> (mgr \<times> 's) step" where
  "OnRWChangeState send ts t st =
     (case st of (m, s) \<Rightarrow>
        (let (uid, tm) = map_index (transport_map m) t '''';
             m = m\<lparr>transport_map := tm\<rparr>
         in if t \<notin> live m then Inl UseAfterFree
            else
              (let status = link_status ts t in
               ebind (send kLocalControllerId uid status kConStat s) (\<lambda>s.
                 if status = ''online''
                 then (case uid_map m uid of
                         None \<Rightarrow> Inl NullDeref
                       | Some ps \<Rightarrow> Inr ((m, s), map PortConnect (ch_ports ts (ps_channel ps))))
                 else Inr ((m, s), [])))))"

text \<open>\<open>HandlePeer\<close>, the slot of the XMPP network's signal: to the local controller.\<close>

definition HandlePeer :: "'s sender \<Rightarrow> string \<Rightarrow> string \<Rightarrow> string \<Rightarrow> mgr \<times> 's \<Rightarrow> (mgr \<times> 's) step" where
  "HandlePeer send uid data type st =
     (case st of (m, s) \<Rightarrow> ebind (send kLocalControllerId uid data type s) (\<lambda>s. Inr ((m, s), [])))"

end
