(* ===== verification/Link_Tables.thy ===== *)
theory Link_Tables
  imports Link_Manager
begin

text \<open>
  The tables of the connection manager as interfaces: a table whose entries are written once
  (links by peer id, addresses by peer id), a table with removal as well (links), and what the
  manager's operations do to them; the invariant that ties the link table, the transport table,
  the shortened ids and the live transports together, kept by every operation; and the
  abstract link table that the operations refine.
\<close>

section \<open>Write-once tables\<close>

text \<open>
  \<open>add\<close> takes a key and what to store for it, and says whether it stored something. It does so
  only for an absent key, and a refusal changes nothing.
\<close>

locale once_table =
  fixes lookup :: "'s \<Rightarrow> 'k \<rightharpoonup> 'v"
    and add :: "'k \<Rightarrow> 'a \<Rightarrow> 's \<Rightarrow> bool \<times> 's"
  assumes add_stored: "add k a s = (True, s') \<Longrightarrow>
      lookup s k = None \<and> (\<exists>v. lookup s' = (lookup s)(k \<mapsto> v))"
    and add_refused: "add k a s = (False, s') \<Longrightarrow> s' = s"
begin

lemma add_keeps: "lookup s k = Some v \<Longrightarrow> lookup (snd (add j a s)) k = Some v"
proof (cases "add j a s")
  case (Pair b s')
  assume k: "lookup s k = Some v"
  show ?thesis
  proof (cases b)
    case True
    with Pair add_stored [of j a s s'] k show ?thesis by (auto split: if_splits)
  next
    case False
    with Pair add_refused [of j a s s'] k show ?thesis by simp
  qed
qed

text \<open>The first writer of a key wins over every later sequence of additions.\<close>

end

locale link_table = once_table lookup add
  for lookup :: "'s \<Rightarrow> 'k \<rightharpoonup> 'v" and add :: "'k \<Rightarrow> 'a \<Rightarrow> 's \<Rightarrow> bool \<times> 's" +
  fixes remove :: "'k \<Rightarrow> 's \<Rightarrow> bool \<times> 's"
  assumes remove_present: "remove k s = (b, s') \<Longrightarrow> b = (lookup s k \<noteq> None)"
    and remove_lookup: "remove k s = (b, s') \<Longrightarrow> lookup s' = (lookup s)(k := None)"
begin

lemma add_remove_lookup:
  assumes "add k a s = (True, s')" and "remove k s' = (b, s'')"
  shows "b \<and> lookup s'' = lookup s"
  using add_stored [OF assms(1)] remove_present [OF assms(2)] remove_lookup [OF assms(2)] by auto

end

section \<open>The link table of the manager\<close>

definition created_peer ::
  "jingle \<Rightarrow> u32 \<Rightarrow> tref \<Rightarrow> cref \<Rightarrow> string \<Rightarrow> link_args \<Rightarrow> mgr \<Rightarrow> peer_state" where
  "created_peer jg now new_t new_ch uid a m =
     fst (SetupTransport jg m ((new_peer jg now new_t new_ch uid a)
       \<lparr>ps_connection_security := (if la_sec_enabled a \<and> local_fingerprint m \<noteq> None \<and>
          la_fingerprint a \<noteq> kFprNull then ''dtls'' else ''none'')\<rparr>))"

lemma SetRelay_frame:
  "snd (SetRelay jg ts u p ps) = ps\<lparr>ps_port_allocator := ps_port_allocator (snd (SetRelay jg ts u p ps))\<rparr>"
  by (simp add: SetRelay_def Let_def)

lemma new_peer_simps [simp]:
  "ps_overlay_id (new_peer jg now t ch uid a) = la_overlay_id a"
  "ps_last_time (new_peer jg now t ch uid a) = now"
  "ps_uid (new_peer jg now t ch uid a) = uid"
  "ps_fingerprint (new_peer jg now t ch uid a) = la_fingerprint a"
  "ps_transport (new_peer jg now t ch uid a) = t"
  "ps_channel (new_peer jg now t ch uid a) = ch"
  "ps_candidates (new_peer jg now t ch uid a) = []"
  "ps_candidate_list (new_peer jg now t ch uid a) = {}"
  unfolding new_peer_def by (subst SetRelay_frame, simp)+

lemma SetupTransport_simps [simp]:
  "ps_overlay_id (fst (SetupTransport jg m ps)) = ps_overlay_id ps"
  "ps_last_time (fst (SetupTransport jg m ps)) = ps_last_time ps"
  "ps_uid (fst (SetupTransport jg m ps)) = ps_uid ps"
  "ps_fingerprint (fst (SetupTransport jg m ps)) = ps_fingerprint ps"
  "ps_connection_security (fst (SetupTransport jg m ps)) = ps_connection_security ps"
  "ps_transport (fst (SetupTransport jg m ps)) = ps_transport ps"
  "ps_channel (fst (SetupTransport jg m ps)) = ps_channel ps"
  "ps_port_allocator (fst (SetupTransport jg m ps)) = ps_port_allocator ps"
  "ps_candidates (fst (SetupTransport jg m ps)) = ps_candidates ps"
  "ps_candidate_list (fst (SetupTransport jg m ps)) = ps_candidate_list ps"
  by (simp_all add: SetupTransport_def Let_def)

lemma created_peer_simps [simp]:
  "ps_overlay_id (created_peer jg now t ch uid a m) = la_overlay_id a"
  "ps_last_time (created_peer jg now t ch uid a m) = now"
  "ps_uid (created_peer jg now t ch uid a m) = uid"
  "ps_fingerprint (created_peer jg now t ch uid a m) = la_fingerprint a"
  "ps_transport (created_peer jg now t ch uid a m) = t"
  "ps_channel (created_peer jg now t ch uid a m) = ch"
  "ps_candidates (created_peer jg now t ch uid a m) = []"
  "ps_candidate_list (created_peer jg now t ch uid a m) = {}"
  "ps_connection_security (created_peer jg now t ch uid a m) =
     (if la_sec_enabled a \<and> local_fingerprint m \<noteq> None \<and> la_fingerprint a \<noteq> kFprNull
      then ''dtls'' else ''none'')"
  by (simp_all add: created_peer_def)

lemma CreateTransport_refused:
  "uid_map m uid \<noteq> None \<or> tincan_id m = uid \<Longrightarrow>
     CreateTransport jg now t ch uid a m = (False, m, [])"
  by (auto simp: CreateTransport_def create_build_def)

lemma CreateTransport_new:
  assumes "uid_map m uid = None" and "tincan_id m \<noteq> uid"
  shows "\<exists>es. CreateTransport jg now t ch uid a m =
    (True, m\<lparr>live := insert t (live m),
             uid_map := (uid_map m)(uid \<mapsto> created_peer jg now t ch uid a m),
             transport_map := (transport_map m)(t \<mapsto> uid),
             short_uid_map := (short_uid_map m)(sub_uid uid \<mapsto> t)\<rparr>, es)"
  using assms
  by (simp add: CreateTransport_def create_build_def create_publish_def InsertTransportMap_w_def
      created_peer_def case_prod_beta Let_def)

lemma CreateTransport_cases:
  assumes "CreateTransport jg now t ch uid a m = (b, m', es)"
  obtains (refused) "\<not> b" "m' = m" "es = []" "uid_map m uid \<noteq> None \<or> tincan_id m = uid"
  | (created) "b" "uid_map m uid = None" "tincan_id m \<noteq> uid"
      "m' = m\<lparr>live := insert t (live m),
             uid_map := (uid_map m)(uid \<mapsto> created_peer jg now t ch uid a m),
             transport_map := (transport_map m)(t \<mapsto> uid),
             short_uid_map := (short_uid_map m)(sub_uid uid \<mapsto> t)\<rparr>"
proof (cases "uid_map m uid = None \<and> tincan_id m \<noteq> uid")
  case True
  then show ?thesis
    using assms CreateTransport_new [of m uid jg now t ch a] created by auto
next
  case False
  then show ?thesis
    using assms CreateTransport_refused [of m uid jg now t ch a] refused by auto
qed

lemma DestroyTransport_absent: "uid_map m uid = None \<Longrightarrow> DestroyTransport uid m = (False, m, [])"
  by (simp add: DestroyTransport_def)

lemma delete_short: "DeleteTransportMap_w sub m = m\<lparr>short_uid_map := (short_uid_map m)(sub := None)\<rparr>"
  by (auto simp: DeleteTransportMap_w_def fun_upd_idem)

lemma DestroyTransport_present:
  "uid_map m uid = Some ps \<Longrightarrow> DestroyTransport uid m =
     (True, m\<lparr>short_uid_map := (short_uid_map m)(sub_uid uid := None),
              transport_map := (transport_map m)(ps_transport ps := None),
              uid_map := (uid_map m)(uid := None), live := live m - {ps_transport ps}\<rparr>,
      [DeleteTransport (ps_transport ps)])"
  by (simp add: DestroyTransport_def destroy_unlink_def destroy_free_def delete_short)

text \<open>The operations as the interfaces see them: the events are left out.\<close>

definition add_link :: "jingle \<Rightarrow> string \<Rightarrow> u32 \<times> tref \<times> cref \<times> link_args \<Rightarrow> mgr \<Rightarrow> bool \<times> mgr" where
  "add_link jg uid x m =
     (case x of (now, t, ch, a) \<Rightarrow>
        (let (b, m', es) = CreateTransport jg now t ch uid a m in (b, m')))"

definition remove_link :: "string \<Rightarrow> mgr \<Rightarrow> bool \<times> mgr" where
  "remove_link uid m = (let (b, m', es) = DestroyTransport uid m in (b, m'))"

definition add_ips :: "jingle \<Rightarrow> string \<Rightarrow> string \<times> string \<Rightarrow> mgr \<Rightarrow> bool \<times> mgr" where
  "add_ips jg uid x m =
     (case x of (ip4, ip6) \<Rightarrow> (let (b, m', es) = AddIPMapping jg uid ip4 ip6 m in (b, m')))"

interpretation links: link_table uid_map "add_link jg" remove_link for jg
proof unfold_locales
  fix k :: string and x m m'
  assume add: "add_link jg k x m = (True, m')"
  obtain now t ch a where x: "x = (now, t, ch, a)" by (cases x)
  obtain b m1 es where c: "CreateTransport jg now t ch k a m = (b, m1, es)"
    by (metis prod_cases3)
  have "b" "m1 = m'"
    using add x c by (simp_all add: add_link_def)
  with c show "uid_map m k = None \<and> (\<exists>v. uid_map m' = (uid_map m)(k \<mapsto> v))"
    by (cases rule: CreateTransport_cases) auto
next
  fix k :: string and x m m'
  assume add: "add_link jg k x m = (False, m')"
  obtain now t ch a where x: "x = (now, t, ch, a)" by (cases x)
  obtain b m1 es where c: "CreateTransport jg now t ch k a m = (b, m1, es)"
    by (metis prod_cases3)
  have "\<not> b" "m1 = m'"
    using add x c by (simp_all add: add_link_def)
  with c show "m' = m"
    by (cases rule: CreateTransport_cases) auto
next
  fix k b m m'
  assume "remove_link k m = (b, m')"
  then show "b = (uid_map m k \<noteq> None)"
    by (cases "uid_map m k")
      (auto simp: remove_link_def DestroyTransport_absent DestroyTransport_present)
next
  fix k b m m'
  assume "remove_link k m = (b, m')"
  then show "uid_map m' = (uid_map m)(k := None)"
    by (cases "uid_map m k")
      (auto simp: remove_link_def DestroyTransport_absent DestroyTransport_present)
qed

interpretation ips: once_table ip_map "add_ips jg" for jg
  by unfold_locales (auto simp: add_ips_def AddIPMapping_def split: if_splits prod.splits)

section \<open>The invariant of the tables\<close>

text \<open>
  Every link owns a live transport that the transport table leads back from; the transport table
  knows no other transports; a shortened id leads to the transport of a link whose id it
  shortens; every live transport is owned by a link.
\<close>

definition tables_ok ::
  "(string \<rightharpoonup> peer_state) \<Rightarrow> (string \<rightharpoonup> tref) \<Rightarrow> (tref \<rightharpoonup> string) \<Rightarrow> tref set \<Rightarrow> bool" where
  "tables_ok U S T L \<longleftrightarrow>
     (\<forall>uid ps. U uid = Some ps \<longrightarrow>
        ps_uid ps = uid \<and> ps_transport ps \<in> L \<and> T (ps_transport ps) = Some uid) \<and>
     (\<forall>t uid. T t = Some uid \<longrightarrow> (\<exists>ps. U uid = Some ps \<and> ps_transport ps = t)) \<and>
     (\<forall>sub t. S sub = Some t \<longrightarrow>
        (\<exists>uid ps. U uid = Some ps \<and> ps_transport ps = t \<and> sub_uid uid = sub)) \<and>
     (\<forall>t \<in> L. \<exists>uid ps. U uid = Some ps \<and> ps_transport ps = t)"

definition links_ok :: "mgr \<Rightarrow> bool" where
  "links_ok m \<longleftrightarrow> tables_ok (uid_map m) (short_uid_map m) (transport_map m) (live m)"

lemma tables_okD:
  assumes "tables_ok U S T L"
  shows "U uid = Some ps \<Longrightarrow> ps_uid ps = uid"
    and "U uid = Some ps \<Longrightarrow> ps_transport ps \<in> L"
    and "U uid = Some ps \<Longrightarrow> T (ps_transport ps) = Some uid"
    and "T t = Some uid \<Longrightarrow> \<exists>ps. U uid = Some ps \<and> ps_transport ps = t"
    and "S sub = Some t \<Longrightarrow> \<exists>uid ps. U uid = Some ps \<and> ps_transport ps = t \<and> sub_uid uid = sub"
    and "t \<in> L \<Longrightarrow> \<exists>uid ps. U uid = Some ps \<and> ps_transport ps = t"
  using assms unfolding tables_ok_def by blast+

lemma tables_ok_empty: "tables_ok Map.empty Map.empty Map.empty {}"
  by (simp add: tables_ok_def)

lemma tables_ok_create:
  assumes ok: "tables_ok U S T L" and "t \<notin> L" and "U uid = None"
    and "ps_uid ps = uid" and "ps_transport ps = t"
  shows "tables_ok (U(uid \<mapsto> ps)) (S(sub_uid uid \<mapsto> t)) (T(t \<mapsto> uid)) (insert t L)"
proof -
  have T: "T t = None"
    using tables_okD(4) [OF ok, of t] tables_okD(2) [OF ok] assms(2) by (cases "T t") auto
  show ?thesis
    unfolding tables_ok_def
  proof (intro conjI allI impI ballI)
    fix v qs
    assume "(U(uid \<mapsto> ps)) v = Some qs"
    then show "ps_uid qs = v" "ps_transport qs \<in> insert t L"
      and "(T(t \<mapsto> uid)) (ps_transport qs) = Some v"
      using assms tables_okD(1-3) [OF ok, of v qs] T by (auto split: if_splits)
  next
    fix u v
    assume "(T(t \<mapsto> uid)) u = Some v"
    then show "\<exists>qs. (U(uid \<mapsto> ps)) v = Some qs \<and> ps_transport qs = u"
      using assms tables_okD(4) [OF ok, of u v] by (auto split: if_splits)
  next
    fix sub u
    assume S: "(S(sub_uid uid \<mapsto> t)) sub = Some u"
    show "\<exists>v qs. (U(uid \<mapsto> ps)) v = Some qs \<and> ps_transport qs = u \<and> sub_uid v = sub"
    proof (cases "sub = sub_uid uid")
      case True
      then show ?thesis
        using S assms(5) by (intro exI [of _ uid] exI [of _ ps]) simp
    next
      case False
      then obtain v qs where "U v = Some qs" "ps_transport qs = u" "sub_uid v = sub"
        using S tables_okD(5) [OF ok, of sub u] by auto
      then show ?thesis
        using assms(3) by (intro exI [of _ v] exI [of _ qs]) auto
    qed
  next
    fix u
    assume u: "u \<in> insert t L"
    show "\<exists>v qs. (U(uid \<mapsto> ps)) v = Some qs \<and> ps_transport qs = u"
    proof (cases "u = t")
      case True
      then show ?thesis
        using assms(5) by (intro exI [of _ uid] exI [of _ ps]) simp
    next
      case False
      then obtain v qs where "U v = Some qs" "ps_transport qs = u"
        using u tables_okD(6) [OF ok, of u] by auto
      then show ?thesis
        using assms(3) by (intro exI [of _ v] exI [of _ qs]) auto
    qed
  qed
qed

lemma tables_ok_destroy:
  assumes ok: "tables_ok U S T L" and U: "U uid = Some ps"
  shows "tables_ok (U(uid := None)) (S(sub_uid uid := None)) (T(ps_transport ps := None))
    (L - {ps_transport ps})"
proof -
  have other: "ps_transport qs \<noteq> ps_transport ps" if "U v = Some qs" "v \<noteq> uid" for v qs
    using tables_okD(3) [OF ok U] tables_okD(3) [OF ok that(1)] that(2) by auto
  show ?thesis
    unfolding tables_ok_def
  proof (intro conjI allI impI ballI)
    fix v qs
    assume "(U(uid := None)) v = Some qs"
    then show "ps_uid qs = v" "ps_transport qs \<in> L - {ps_transport ps}"
      and "(T(ps_transport ps := None)) (ps_transport qs) = Some v"
      using tables_okD(1-3) [OF ok, of v qs] other [of v qs] by (auto split: if_splits)
  next
    fix t v
    assume "(T(ps_transport ps := None)) t = Some v"
    then show "\<exists>qs. (U(uid := None)) v = Some qs \<and> ps_transport qs = t"
      using tables_okD(4) [OF ok, of t v] U by (auto split: if_splits)
  next
    fix sub t
    assume "(S(sub_uid uid := None)) sub = Some t"
    then obtain v qs where "U v = Some qs" "ps_transport qs = t" "sub_uid v = sub" "sub \<noteq> sub_uid uid"
      using tables_okD(5) [OF ok, of sub t] by (auto split: if_splits)
    then show "\<exists>v qs. (U(uid := None)) v = Some qs \<and> ps_transport qs = t \<and> sub_uid v = sub"
      by (intro exI [of _ v] exI [of _ qs]) auto
  next
    fix t
    assume "t \<in> L - {ps_transport ps}"
    then obtain v qs where "U v = Some qs" "ps_transport qs = t" "t \<noteq> ps_transport ps"
      using tables_okD(6) [OF ok, of t] by auto
    then show "\<exists>v qs. (U(uid := None)) v = Some qs \<and> ps_transport qs = t"
      using U by (intro exI [of _ v] exI [of _ qs]) auto
  qed
qed

lemma links_ok_new: "links_ok (mgr_new r tapname)"
  by (simp add: links_ok_def mgr_new_def tables_ok_empty)

lemma links_ok_CreateTransport:
  assumes "links_ok m" and "t \<notin> live m" and "CreateTransport jg now t ch uid a m = (b, m', es)"
  shows "links_ok m'"
  using assms(3)
proof (cases rule: CreateTransport_cases)
  case refused
  then show ?thesis using assms(1) by simp
next
  case created
  then show ?thesis
    using assms(1,2) tables_ok_create by (simp add: links_ok_def)
qed

lemma links_ok_DestroyTransport:
  assumes "links_ok m" and "DestroyTransport uid m = (b, m', es)"
  shows "links_ok m'"
proof (cases "uid_map m uid")
  case None
  then show ?thesis using assms by (simp add: DestroyTransport_absent)
next
  case (Some ps)
  then show ?thesis
    using assms tables_ok_destroy [of "uid_map m"]
    by (auto simp: DestroyTransport_present links_ok_def)
qed

text \<open>Operations on the other fields.\<close>

lemma links_ok_frame [simp]:
  "links_ok (m\<lparr>ip_map := i\<rparr>) = links_ok m"
  "links_ok (m\<lparr>tincan_id := x\<rparr>) = links_ok m"
  "links_ok (m\<lparr>identity := ident\<rparr>) = links_ok m"
  "links_ok (m\<lparr>local_fingerprint := lf\<rparr>) = links_ok m"
  "links_ok (m\<lparr>fingerprint := x\<rparr>) = links_ok m"
  "links_ok (m\<lparr>tincan_ip4 := x\<rparr>) = links_ok m"
  "links_ok (m\<lparr>tincan_ip6 := x\<rparr>) = links_ok m"
  "links_ok (m\<lparr>forward_socket := fs\<rparr>) = links_ok m"
  "links_ok (m\<lparr>forward_addr := fa\<rparr>) = links_ok m"
  "links_ok (m\<lparr>trim_enabled := b\<rparr>) = links_ok m"
  "links_ok (m\<lparr>ignore_list := l\<rparr>) = links_ok m"
  by (simp_all add: links_ok_def)

lemma links_ok_Setup:
  "Setup jg debug tap uid ip4 k4 ip6 k6 sm sw m = Inr (m', es) \<Longrightarrow> links_ok m' = links_ok m"
  by (auto simp: Setup_def Let_def split: if_splits option.splits)

lemma links_ok_AddIPMapping:
  "AddIPMapping jg uid ip4 ip6 m = (b, m', es) \<Longrightarrow> links_ok m' = links_ok m"
  by (auto simp: AddIPMapping_def split: if_splits)

lemma links_ok_registered:
  "links_ok m \<Longrightarrow> t \<in> live m \<Longrightarrow>
     \<exists>uid ps. transport_map m t = Some uid \<and> uid_map m uid = Some ps \<and> ps_transport ps = t"
  unfolding links_ok_def using tables_okD(3,6) by metis

lemma OnRWChangeState_registered:
  assumes "links_ok m" and "t \<in> live m"
  shows "\<exists>uid ps. transport_map m t = Some uid \<and> uid_map m uid = Some ps \<and>
    OnRWChangeState send ts t (m, s) =
      ebind (send 0 uid (link_status ts t) kConStat s) (\<lambda>s. Inr ((m, s),
        if link_status ts t = ''online'' then map PortConnect (ch_ports ts (ps_channel ps)) else []))"
proof -
  obtain uid ps where u: "transport_map m t = Some uid" "uid_map m uid = Some ps"
    using links_ok_registered [OF assms] by blast
  have "m\<lparr>transport_map := transport_map m\<rparr> = m"
    by simp
  then have "OnRWChangeState send ts t (m, s) =
      ebind (send 0 uid (link_status ts t) kConStat s) (\<lambda>s. Inr ((m, s),
        if link_status ts t = ''online'' then map PortConnect (ch_ports ts (ps_channel ps)) else []))"
    using u assms(2)
    by (auto simp: OnRWChangeState_def kLocalControllerId_def cong: if_cong intro!: arg_cong2 [of _ _ _ _ ebind])
  with u show ?thesis by blast
qed

section \<open>Concrete links\<close>

definition demo_uid :: "char \<Rightarrow> string" where
  "demo_uid c = replicate 39 (CHR ''0'') @ [c]"

definition demo_args :: link_args where
  "demo_args = \<lparr>la_fingerprint = ''AB'', la_overlay_id = 1, la_stun_server = ''stun'',
     la_turn_server = ''turn'', la_turn_user = ''user'', la_turn_pass = ''pw'', la_sec_enabled = True\<rparr>"

definition demo_mgr :: mgr where
  "demo_mgr = (mgr_new 5 ''ipop'')\<lparr>tincan_id := demo_uid (CHR ''9'')\<rparr>"

lemma demo_uid_eq [simp]: "demo_uid c = demo_uid d \<longleftrightarrow> c = d"
  by (simp add: demo_uid_def)

lemma length_demo_uid [simp]: "length (demo_uid c) = 40"
  by (simp add: demo_uid_def)

lemma sub_uid_demo [simp]: "sub_uid (demo_uid c) = replicate 16 (CHR ''0'')"
  by (simp add: sub_uid_def kShortLen_def demo_uid_def)

lemma demo_mgr_simps [simp]:
  "uid_map demo_mgr = Map.empty" "live demo_mgr = {}" "short_uid_map demo_mgr = Map.empty"
  "transport_map demo_mgr = Map.empty" "tincan_id demo_mgr = demo_uid (CHR ''9'')"
  by (simp_all add: demo_mgr_def mgr_new_def)

definition demo_peer :: peer_state where
  "demo_peer = created_peer jingle0 0 (TRef 1) 2 (demo_uid (CHR ''1'')) demo_args demo_mgr"

definition demo_linked :: mgr where
  "demo_linked = demo_mgr\<lparr>live := {TRef 1}, uid_map := [demo_uid (CHR ''1'') \<mapsto> demo_peer],
     transport_map := [TRef 1 \<mapsto> demo_uid (CHR ''1'')],
     short_uid_map := [replicate 16 (CHR ''0'') \<mapsto> TRef 1], forward_socket := Some Sock6\<rparr>"

lemma demo_linked_ok: "links_ok demo_linked"
  using tables_ok_create [OF tables_ok_empty, where t = "TRef 1" and uid = "demo_uid (CHR ''1'')"
      and ps = demo_peer]
  by (simp add: links_ok_def demo_linked_def demo_peer_def)

section \<open>Properties\<close>

text \<open>
  Claim C21. When two nodes with different ids each set up a transport to the other, their
  roles fit: the node with the greater id is the controlling one, applies its own description
  as an offer with the role \<open>actpass\<close> and then the remote one as the answer; the other node is
  controlled, applies the remote description as the offer first and then its own as the answer,
  with the role \<open>active\<close>. Each passes on the fingerprint it was given for the other.
\<close>

theorem link_roles_complementary:
  assumes "tincan_id mb < tincan_id ma"
    and "ps_uid psa = tincan_id mb" and "ps_uid psb = tincan_id ma"
  shows "\<exists>la ra lb rb.
    snd (SetupTransport jg ma psa) = [SetIceTiebreaker (tiebreaker ma),
      SetIceRole ICEROLE_CONTROLLING, SetLocalDesc la CA_OFFER, SetRemoteDesc ra CA_ANSWER] \<and>
    snd (SetupTransport jg mb psb) = [SetIceTiebreaker (tiebreaker mb),
      SetIceRole ICEROLE_CONTROLLED, SetRemoteDesc rb CA_OFFER, SetLocalDesc lb CA_ANSWER] \<and>
    td_role la = CONNECTIONROLE_ACTPASS \<and> td_role lb = CONNECTIONROLE_ACTIVE \<and>
    td_fingerprint la = local_fingerprint ma \<and> td_fingerprint lb = local_fingerprint mb \<and>
    td_fingerprint ra = parse_fpr jg (ps_fingerprint psa) \<and>
    td_fingerprint rb = parse_fpr jg (ps_fingerprint psb)"
proof -
  have "\<not> tincan_id ma < tincan_id mb"
    using assms(1) by simp
  then show ?thesis
    using assms by (simp add: SetupTransport_def Let_def)
qed

theorem link_roles_complementary_witness:
  "\<exists>la ra. snd (SetupTransport jingle0 demo_mgr (created_peer jingle0 0 (TRef 1) 2 (demo_uid (CHR ''1''))
      demo_args demo_mgr)) =
    [SetIceTiebreaker 5, SetIceRole ICEROLE_CONTROLLING, SetLocalDesc la CA_OFFER,
     SetRemoteDesc ra CA_ANSWER]"
proof -
  let ?mb = "demo_mgr\<lparr>tincan_id := demo_uid (CHR ''1'')\<rparr>"
  have "tincan_id ?mb < tincan_id demo_mgr"
    by (simp add: demo_uid_def numeral_eq_Suc)
  from link_roles_complementary [OF this, of
      "created_peer jingle0 0 (TRef 1) 2 (demo_uid (CHR ''1'')) demo_args demo_mgr"
      "created_peer jingle0 0 (TRef 1) 2 (demo_uid (CHR ''9'')) demo_args ?mb" jingle0]
  show ?thesis by (auto simp: demo_mgr_def mgr_new_def)
qed

text \<open>
  Claim C20. \<open>DestroyTransport\<close> undoes \<open>CreateTransport\<close>: destroying a link just created destroys the transport
  that was made for it and leaves every other link and transport as before; the manager as a whole
  is the one before when the transport's address and the shortened id were not in its tables.
  Destroying the link again reports failure and changes nothing.
\<close>

theorem link_destroy_undoes_create:
  assumes "t \<notin> live m" and "CreateTransport jg now t ch uid a m = (True, m', es)"
  shows "\<exists>m''. DestroyTransport uid m' = (True, m'', [DeleteTransport t]) \<and> uid_map m'' = uid_map m \<and>
    live m'' = live m \<and> DestroyTransport uid m'' = (False, m'', []) \<and>
    (transport_map m t = None \<and> short_uid_map m (sub_uid uid) = None \<longrightarrow> m'' = m)"
  using assms(2)
proof (cases rule: CreateTransport_cases)
  case refused
  then show ?thesis by simp
next
  case created
  then obtain m'' where d: "DestroyTransport uid m' = (True, m'', [DeleteTransport t])"
    and l: "live m'' = live m" "transport_map m t = None \<and> short_uid_map m (sub_uid uid) = None \<longrightarrow> m'' = m"
    using assms(1) by (simp add: DestroyTransport_present fun_upd_idem)
  have "add_link jg uid (now, t, ch, a) m = (True, m')" "remove_link uid m' = (True, m'')"
    using assms(2) d by (simp_all add: add_link_def remove_link_def)
  then have u: "uid_map m'' = uid_map m"
    using links.add_remove_lookup by blast
  then have "DestroyTransport uid m'' = (False, m'', [])"
    using created(2) by (simp add: DestroyTransport_absent)
  with d l u show ?thesis by blast
qed

theorem link_destroy_undoes_create_witness:
  "\<exists>m' es. CreateTransport jingle0 0 (TRef 1) 2 (demo_uid (CHR ''1'')) demo_args demo_mgr = (True, m', es) \<and>
    DestroyTransport (demo_uid (CHR ''1'')) m' = (True, demo_mgr, [DeleteTransport (TRef 1)])"
proof -
  obtain m' es where c: "CreateTransport jingle0 0 (TRef 1) 2 (demo_uid (CHR ''1'')) demo_args demo_mgr =
      (True, m', es)"
    using CreateTransport_new [of demo_mgr "demo_uid (CHR ''1'')" jingle0 0 "TRef 1" 2 demo_args] by auto
  from link_destroy_undoes_create [OF _ c] c show ?thesis by auto
qed

text \<open>
  Claim C34. Two links whose ids share their first 16 characters share one entry of the table the
  packets are routed by: after creating both and destroying either, the other link still exists
  with its live transport, but its shortened id leads nowhere.
\<close>

theorem link_short_id_collision:
  assumes "uid \<noteq> uid'" and "sub_uid uid = sub_uid uid'" and "t \<noteq> t'"
    and "CreateTransport jg now t ch uid a m = (True, m1, es1)"
    and "CreateTransport jg' now' t' ch' uid' a' m1 = (True, m2, es2)"
    and "victim \<in> {uid, uid'}" and "survivor \<in> {uid, uid'} - {victim}"
    and "DestroyTransport victim m2 = (b, m3, es3)"
  shows "\<exists>ps. uid_map m3 survivor = Some ps \<and> ps_transport ps \<in> live m3 \<and>
    short_uid_map m3 (sub_uid survivor) = None"
proof -
  let ?p = "created_peer jg now t ch uid a m" and ?q = "created_peer jg' now' t' ch' uid' a' m1"
  have m1: "m1 = m\<lparr>live := insert t (live m), uid_map := (uid_map m)(uid \<mapsto> ?p),
      transport_map := (transport_map m)(t \<mapsto> uid),
      short_uid_map := (short_uid_map m)(sub_uid uid \<mapsto> t)\<rparr>"
    using assms(4) by (cases rule: CreateTransport_cases) simp_all
  have m2: "m2 = m1\<lparr>live := insert t' (live m1), uid_map := (uid_map m1)(uid' \<mapsto> ?q),
      transport_map := (transport_map m1)(t' \<mapsto> uid'),
      short_uid_map := (short_uid_map m1)(sub_uid uid' \<mapsto> t')\<rparr>"
    using assms(5) by (cases rule: CreateTransport_cases) simp_all
  have U: "uid_map m2 uid = Some ?p" "uid_map m2 uid' = Some ?q"
    and L: "t \<in> live m2" "t' \<in> live m2"
    using assms(1) m1 m2 by simp_all
  show ?thesis
  proof (cases "victim = uid")
    case True
    then show ?thesis
      using U L assms(1-3,7,8) by (auto simp: DestroyTransport_present)
  next
    case False
    then show ?thesis
      using U L assms(1-3,6-8) by (auto simp: DestroyTransport_present)
  qed
qed

theorem link_short_id_collision_witness:
  "\<exists>m1 es1 m2 es2 m3 es3.
     CreateTransport jingle0 0 (TRef 1) 2 (demo_uid (CHR ''1'')) demo_args demo_mgr = (True, m1, es1) \<and>
     CreateTransport jingle0 0 (TRef 3) 4 (demo_uid (CHR ''2'')) demo_args m1 = (True, m2, es2) \<and>
     DestroyTransport (demo_uid (CHR ''2'')) m2 = (True, m3, es3) \<and>
     short_uid_map m3 (sub_uid (demo_uid (CHR ''1''))) = None"
proof -
  let ?a = "demo_uid (CHR ''1'')" and ?b = "demo_uid (CHR ''2'')"
  obtain m1 es1 where 1: "CreateTransport jingle0 0 (TRef 1) 2 ?a demo_args demo_mgr = (True, m1, es1)"
    and m1: "uid_map m1 ?b = None" "tincan_id m1 = demo_uid (CHR ''9'')"
    using CreateTransport_new [of demo_mgr ?a jingle0 0 "TRef 1" 2 demo_args] by auto
  obtain m2 es2 where 2: "CreateTransport jingle0 0 (TRef 3) 4 ?b demo_args m1 = (True, m2, es2)"
    and m2: "uid_map m2 ?b \<noteq> None"
    using CreateTransport_new [of m1 ?b jingle0 0 "TRef 3" 4 demo_args] m1 by auto
  obtain m3 es3 where 3: "DestroyTransport ?b m2 = (True, m3, es3)"
    using m2 DestroyTransport_present by (cases "uid_map m2 ?b") auto
  from link_short_id_collision [OF _ _ _ 1 2 _ _ 3, of ?a] 1 2 3 show ?thesis by auto
qed

text \<open>
  A node is set up once: a first \<open>Setup\<close> with an id of 40 characters that returns takes
  the id, records the addresses and makes every call to ipop-tap in order; after it every further
  \<open>Setup\<close> returns without any effect, and no link to the node's own id is created.
\<close>

theorem setup_once:
  assumes "tincan_id m = []" and "length uid = 40"
    and "Setup jg debug tap uid ip4 ip4_mask ip6 ip6_mask subnet_mask switchmode m = Inr (m', es)"
  shows "tincan_id m' = uid \<and> tincan_ip4 m' = ip4 \<and> tincan_ip6 m' = ip6 \<and>
    local_fingerprint m' = make_fpr jg uid \<and>
    es = map TapCall (setup_calls jg uid ip4 ip4_mask ip6 ip6_mask subnet_mask switchmode) \<and>
    Setup jg debug' tap' uid' i4 k4 i6 k6 sm sw m' = Inr (m', []) \<and>
    CreateTransport jg now t ch uid a m' = (False, m', [])"
proof -
  have m': "tincan_id m' = uid \<and> tincan_ip4 m' = ip4 \<and> tincan_ip6 m' = ip6 \<and>
    local_fingerprint m' = make_fpr jg uid \<and>
    es = map TapCall (setup_calls jg uid ip4 ip4_mask ip6 ip6_mask subnet_mask switchmode)"
    using assms by (auto simp: Setup_def kIdSize_def Let_def split: if_splits option.splits)
  then have "tincan_id m' \<noteq> []"
    using assms(2) by auto
  with m' show ?thesis
    by (simp add: Setup_def CreateTransport_refused)
qed

theorem setup_once_witness:
  "\<exists>m' es. Setup jingle0 True (\<lambda>_. 0) (demo_uid (CHR ''1'')) ''172.31.0.2'' 24 ''fd50::1'' 64 32 0
      (mgr_new 5 ''ipop'') = Inr (m', es) \<and> tincan_id m' = demo_uid (CHR ''1'') \<and>
    Setup jingle0 True (\<lambda>_. 0) (demo_uid (CHR ''2'')) ''1'' 2 ''3'' 4 5 6 m' = Inr (m', [])"
proof -
  let ?m = "mgr_new 5 ''ipop''"
  have "fold (\<lambda>c e. or e ((\<lambda>_. 0 :: u32) c)) xs 0 = 0" for xs :: "tap_call list"
    by (induction xs) simp_all
  then obtain m' es where s: "Setup jingle0 True (\<lambda>_. 0) (demo_uid (CHR ''1'')) ''172.31.0.2'' 24
      ''fd50::1'' 64 32 0 ?m = Inr (m', es)"
    by (auto simp: Setup_def Let_def mgr_new_def kIdSize_def)
  have "tincan_id ?m = []"
    by (simp add: mgr_new_def)
  from setup_once [OF this _ s] s show ?thesis by simp
qed

end
