(* ===== verification/Wqueue.thy ===== *)
theory Wqueue
  imports Tincan_Prelude
begin

text \<open>
  The blocking queue of \<open>src/wqueue.h\<close>, which carries the packets between the threads of
  ipop-tap and the packet-handling thread. First its operations as functions on the list
  \<open>m_queue\<close> (\<open>remove\<close> gives \<open>None\<close> where the caller has to wait) and the FIFO interface the
  data plane relies on, as a locale; then the same operations as they run: threads that
  interleave at every access of the mutex, the condition variable and the list.
\<close>

section \<open>Sequential operations\<close>

record 'a wqueue =
  m_queue :: "'a list"

definition wq_new :: "'a wqueue" where
  "wq_new = \<lparr>m_queue = []\<rparr>"

definition wq_add :: "'a \<Rightarrow> 'a wqueue \<Rightarrow> 'a wqueue" where
  "wq_add item q = q\<lparr>m_queue := m_queue q @ [item]\<rparr>"

definition wq_remove :: "'a wqueue \<Rightarrow> ('a \<times> 'a wqueue) option" where
  "wq_remove q = (case m_queue q of [] \<Rightarrow> None | item # rest \<Rightarrow> Some (item, q\<lparr>m_queue := rest\<rparr>))"

text \<open>\<open>size()\<close> stores the \<open>size_t\<close> of the list in an \<open>int\<close>.\<close>

definition wq_size :: "'a wqueue \<Rightarrow> int" where
  "wq_size q = sint (of_nat (length (m_queue q)) :: 32 word)"

lemma wq_size_small: "length (m_queue q) < 2 ^ 31 \<Longrightarrow> wq_size q = int (length (m_queue q))"
  by (simp add: wq_size_def sint_uint unsigned_of_nat signed_take_bit_int_eq_self
      take_bit_nat_eq_self)

section \<open>The FIFO interface\<close>

datatype 'a qop = QAdd 'a | QRemove

fun q_run :: "('a \<Rightarrow> 'q \<Rightarrow> 'q) \<Rightarrow> ('q \<Rightarrow> ('a \<times> 'q) option) \<Rightarrow> 'a qop list \<Rightarrow> 'q \<Rightarrow> 'a list \<times> 'q" where
  "q_run add remove [] q = ([], q)"
| "q_run add remove (QAdd x # ops) q = q_run add remove ops (add x q)"
| "q_run add remove (QRemove # ops) q =
     (case remove q of
        None \<Rightarrow> q_run add remove ops q
      | Some (x, q') \<Rightarrow> (let (out, q'') = q_run add remove ops q' in (x # out, q'')))"

lemma q_run_append:
  "q_run add remove ops q = (out, q') \<Longrightarrow> q_run add remove ops' q' = (out', q'') \<Longrightarrow>
     q_run add remove (ops @ ops') q = (out @ out', q'')"
  by (induction add remove ops q arbitrary: out rule: q_run.induct)
    (auto split: option.splits prod.splits)

fun q_added :: "'a qop list \<Rightarrow> 'a list" where
  "q_added [] = []"
| "q_added (QAdd x # ops) = x # q_added ops"
| "q_added (QRemove # ops) = q_added ops"

lemma q_added_append [simp]: "q_added (ops @ ops') = q_added ops @ q_added ops'"
  by (induction ops rule: q_added.induct) simp_all

locale fifo =
  fixes empty :: "'q"
    and add :: "'a \<Rightarrow> 'q \<Rightarrow> 'q"
    and remove :: "'q \<Rightarrow> ('a \<times> 'q) option"
    and contents :: "'q \<Rightarrow> 'a list"
  assumes contents_empty: "contents empty = []"
    and contents_add: "contents (add x q) = contents q @ [x]"
    and remove_None: "remove q = None \<longleftrightarrow> contents q = []"
    and remove_Some: "remove q = Some (x, q') \<Longrightarrow> contents q = x # contents q'"
begin

lemma remove_add_empty: "contents q = [] \<Longrightarrow> \<exists>q'. remove (add x q) = Some (x, q') \<and> contents q' = []"
proof -
  assume q: "contents q = []"
  then have "remove (add x q) \<noteq> None"
    by (simp add: remove_None contents_add)
  then obtain y q' where r: "remove (add x q) = Some (y, q')"
    by (cases "remove (add x q)") auto
  with remove_Some [OF r] q show ?thesis
    by (simp add: contents_add)
qed

lemma run_conserves:
  "q_run add remove ops q = (out, q') \<Longrightarrow> out @ contents q' = contents q @ q_added ops"
proof (induction ops arbitrary: q out)
  case Nil
  then show ?case by simp
next
  case (Cons op ops)
  show ?case
  proof (cases op)
    case (QAdd x)
    then show ?thesis
      using Cons.IH [of "add x q" out] Cons.prems by (simp add: contents_add)
  next
    case QRemove
    show ?thesis
    proof (cases "remove q")
      case None
      then show ?thesis
        using Cons.IH [of q out] Cons.prems QRemove by simp
    next
      case (Some p)
      obtain x r where p: "p = (x, r)" by (cases p)
      obtain out' q'' where run: "q_run add remove ops r = (out', q'')"
        by (cases "q_run add remove ops r") auto
      have "out = x # out'" "q' = q''"
        using Cons.prems QRemove Some p run by auto
      moreover have "contents q = x # contents r"
        using remove_Some Some p by simp
      ultimately show ?thesis
        using Cons.IH [of r out'] run QRemove by simp
    qed
  qed
qed

lemma run_from_empty:
  "q_run add remove ops empty = (out, q') \<Longrightarrow> out @ contents q' = q_added ops"
  using run_conserves [of ops empty out q'] by (simp add: contents_empty)

end

interpretation wq: fifo wq_new wq_add wq_remove m_queue
  by unfold_locales (auto simp: wq_new_def wq_add_def wq_remove_def split: list.splits)

section \<open>The queue as its threads run it\<close>

text \<open>
  A thread is outside the queue or at one of the points of \<open>add\<close>, \<open>remove\<close> and \<open>size\<close>: the
  calls of \<open>pthread_mutex_lock\<close>, the accesses of the list, \<open>pthread_cond_signal\<close>, the wait on
  the condition variable (which releases the mutex), the wake-up from it (which must take the
  mutex again before the test of the loop) and \<open>pthread_mutex_unlock\<close>.
\<close>

datatype 'a wq_pc = Idle
  | AddLock 'a | AddPush 'a | AddSignal | AddUnlock
  | RemLock | RemTest | RemWait | RemWake | RemFront | RemPop 'a | RemUnlock 'a
  | SizeLock | SizeRead | SizeUnlock nat

fun holds :: "'a wq_pc \<Rightarrow> bool" where
  "holds (AddPush x) = True"
| "holds AddSignal = True"
| "holds AddUnlock = True"
| "holds RemTest = True"
| "holds RemFront = True"
| "holds (RemPop x) = True"
| "holds (RemUnlock x) = True"
| "holds SizeRead = True"
| "holds (SizeUnlock n) = True"
| "holds _ = False"

text \<open>Threads inside the queue that will take an element or wake a waiter.\<close>

fun taker :: "'a wq_pc \<Rightarrow> bool" where
  "taker AddSignal = True"
| "taker RemTest = True"
| "taker RemWake = True"
| "taker RemFront = True"
| "taker (RemPop x) = True"
| "taker _ = False"

text \<open>
  The state: the list, the holder of the mutex, where each thread is, and (for the statements
  only) what has been pushed and popped so far.
\<close>

record 'a monitor =
  mq :: "'a list"
  mtx :: "nat option"
  pcs :: "nat \<Rightarrow> 'a wq_pc"
  pushed :: "'a list"
  popped :: "'a list"

definition monitor_init :: "'a monitor" where
  "monitor_init = \<lparr>mq = [], mtx = None, pcs = (\<lambda>_. Idle), pushed = [], popped = []\<rparr>"

abbreviation goto :: "nat \<Rightarrow> 'a wq_pc \<Rightarrow> 'a monitor \<Rightarrow> 'a monitor" where
  "goto t p s \<equiv> s\<lparr>pcs := (pcs s)(t := p)\<rparr>"

inductive wq_step :: "'a monitor \<Rightarrow> 'a monitor \<Rightarrow> bool" where
  call_add: "pcs s t = Idle \<Longrightarrow> wq_step s (goto t (AddLock x) s)"
| add_lock: "pcs s t = AddLock x \<Longrightarrow> mtx s = None \<Longrightarrow>
    wq_step s (goto t (AddPush x) (s\<lparr>mtx := Some t\<rparr>))"
| add_push: "pcs s t = AddPush x \<Longrightarrow>
    wq_step s (goto t AddSignal (s\<lparr>mq := mq s @ [x], pushed := pushed s @ [x]\<rparr>))"
| add_signal_none: "pcs s t = AddSignal \<Longrightarrow> \<forall>w. pcs s w \<noteq> RemWait \<Longrightarrow>
    wq_step s (goto t AddUnlock s)"
| add_signal_wake: "pcs s t = AddSignal \<Longrightarrow> pcs s w = RemWait \<Longrightarrow>
    wq_step s (goto t AddUnlock (goto w RemWake s))"
| add_unlock: "pcs s t = AddUnlock \<Longrightarrow> wq_step s (goto t Idle (s\<lparr>mtx := None\<rparr>))"
| call_remove: "pcs s t = Idle \<Longrightarrow> wq_step s (goto t RemLock s)"
| rem_lock: "pcs s t = RemLock \<Longrightarrow> mtx s = None \<Longrightarrow>
    wq_step s (goto t RemTest (s\<lparr>mtx := Some t\<rparr>))"
| rem_wait: "pcs s t = RemTest \<Longrightarrow> mq s = [] \<Longrightarrow>
    wq_step s (goto t RemWait (s\<lparr>mtx := None\<rparr>))"
| rem_spurious: "pcs s t = RemWait \<Longrightarrow> wq_step s (goto t RemWake s)"
| rem_relock: "pcs s t = RemWake \<Longrightarrow> mtx s = None \<Longrightarrow>
    wq_step s (goto t RemTest (s\<lparr>mtx := Some t\<rparr>))"
| rem_nonempty: "pcs s t = RemTest \<Longrightarrow> mq s \<noteq> [] \<Longrightarrow> wq_step s (goto t RemFront s)"
| rem_front: "pcs s t = RemFront \<Longrightarrow> wq_step s (goto t (RemPop (hd (mq s))) s)"
| rem_pop: "pcs s t = RemPop x \<Longrightarrow>
    wq_step s (goto t (RemUnlock x) (s\<lparr>mq := tl (mq s), popped := popped s @ [x]\<rparr>))"
| rem_unlock: "pcs s t = RemUnlock x \<Longrightarrow> wq_step s (goto t Idle (s\<lparr>mtx := None\<rparr>))"
| call_size: "pcs s t = Idle \<Longrightarrow> wq_step s (goto t SizeLock s)"
| size_lock: "pcs s t = SizeLock \<Longrightarrow> mtx s = None \<Longrightarrow>
    wq_step s (goto t SizeRead (s\<lparr>mtx := Some t\<rparr>))"
| size_read: "pcs s t = SizeRead \<Longrightarrow> wq_step s (goto t (SizeUnlock (length (mq s))) s)"
| size_unlock: "pcs s t = SizeUnlock n \<Longrightarrow> wq_step s (goto t Idle (s\<lparr>mtx := None\<rparr>))"

inductive wq_reachable :: "'a monitor \<Rightarrow> bool" where
  wq_start: "wq_reachable monitor_init"
| wq_next: "wq_reachable s \<Longrightarrow> wq_step s s' \<Longrightarrow> wq_reachable s'"

inductive_cases wq_stepE: "wq_step s s'"

section \<open>Invariants of the threads\<close>

definition mutex_inv :: "'a monitor \<Rightarrow> bool" where
  "mutex_inv s \<longleftrightarrow> (\<forall>t. mtx s = Some t \<longleftrightarrow> holds (pcs s t))"

definition queue_inv :: "'a monitor \<Rightarrow> bool" where
  "queue_inv s \<longleftrightarrow>
     (\<forall>t. pcs s t = RemFront \<longrightarrow> mq s \<noteq> []) \<and>
     (\<forall>t x. pcs s t = RemPop x \<longrightarrow> mq s \<noteq> [] \<and> hd (mq s) = x)"

lemma mutex_release:
  assumes "mutex_inv s" and "holds (pcs s t)" and "\<not> holds p"
  shows "mutex_inv (goto t p (s\<lparr>mtx := None\<rparr>))"
proof -
  have "mtx s = Some t"
    using assms(1,2) by (simp add: mutex_inv_def)
  then show ?thesis
    using assms by (auto simp: mutex_inv_def)
qed

lemma mutex_inv_step: "wq_step s s' \<Longrightarrow> mutex_inv s \<Longrightarrow> mutex_inv s'"
proof (induction rule: wq_step.induct)
  case (add_unlock s t)
  then show ?case by (intro mutex_release) simp_all
next
  case (rem_wait s t)
  then show ?case by (intro mutex_release) simp_all
next
  case (rem_unlock s t x)
  then show ?case by (intro mutex_release) simp_all
next
  case (size_unlock s t n)
  then show ?case by (intro mutex_release) simp_all
qed (simp_all add: mutex_inv_def)

lemma mutex_unique: "mutex_inv s \<Longrightarrow> holds (pcs s t) \<Longrightarrow> holds (pcs s u) \<Longrightarrow> t = u"
  unfolding mutex_inv_def by (metis option.inject)

text \<open>
  A step that changes the list is made by the holder of the mutex, so no other thread is
  between \<open>front\<close> and \<open>pop_front\<close>.
\<close>

lemma holder_alone:
  assumes "mutex_inv s" and "holds (pcs s t)" and "u \<noteq> t"
  shows "pcs s u \<noteq> RemFront" and "pcs s u \<noteq> RemPop x"
  using assms mutex_unique [of s t u] by auto

lemma queue_inv_step: "wq_step s s' \<Longrightarrow> mutex_inv s \<Longrightarrow> queue_inv s \<Longrightarrow> queue_inv s'"
proof (induction rule: wq_step.induct)
  case (add_push s t x)
  have "holds (pcs s t)" using add_push by simp
  note alone = holder_alone [OF add_push.prems(1) this]
  show ?case
    using add_push alone by (auto simp: queue_inv_def)
next
  case (rem_pop s t x)
  have "holds (pcs s t)" using rem_pop by simp
  note alone = holder_alone [OF rem_pop.prems(1) this]
  have "mq s = x # tl (mq s)"
    using rem_pop by (cases "mq s") (auto simp: queue_inv_def)
  then show ?case
    using rem_pop alone by (auto simp: queue_inv_def)
qed (auto simp: queue_inv_def)

lemma reachable_mutex_inv: "wq_reachable s \<Longrightarrow> mutex_inv s"
proof (induction rule: wq_reachable.induct)
  case wq_start
  show ?case by (simp add: mutex_inv_def monitor_init_def)
next
  case (wq_next s s')
  then show ?case by (blast intro: mutex_inv_step)
qed

lemma reachable_queue_inv: "wq_reachable s \<Longrightarrow> queue_inv s"
proof (induction rule: wq_reachable.induct)
  case wq_start
  show ?case by (simp add: queue_inv_def monitor_init_def)
next
  case (wq_next s s')
  then show ?case by (blast intro: queue_inv_step reachable_mutex_inv)
qed

section \<open>No lost wake-up\<close>

definition takers :: "(nat \<Rightarrow> 'a wq_pc) \<Rightarrow> nat set" where
  "takers ps = {t. taker (ps t)}"

definition wake_ok :: "nat \<Rightarrow> (nat \<Rightarrow> 'a wq_pc) \<Rightarrow> bool" where
  "wake_ok n ps \<longleftrightarrow> finite {t. ps t \<noteq> Idle} \<and> ((\<exists>w. ps w = RemWait) \<longrightarrow> n \<le> card (takers ps))"

definition wake_inv :: "'a monitor \<Rightarrow> bool" where
  "wake_inv s \<longleftrightarrow> wake_ok (length (mq s)) (pcs s)"

lemma takers_upd: "takers (ps(t := p)) = (if taker p then insert t (takers ps) else takers ps - {t})"
  by (auto simp: takers_def)

lemma in_takers: "t \<in> takers ps \<longleftrightarrow> taker (ps t)"
  by (simp add: takers_def)

lemma finite_takers: "finite {t. ps t \<noteq> Idle} \<Longrightarrow> finite (takers ps)"
  by (rule finite_subset [of _ "{t. ps t \<noteq> Idle}"]) (auto simp: takers_def)

lemma wake_ok_finite:
  "wake_ok n ps \<Longrightarrow> finite {u. (ps(t := p)) u \<noteq> Idle}" "wake_ok n ps \<Longrightarrow> finite (takers ps)"
proof -
  assume ok: "wake_ok n ps"
  then have "finite (insert t {u. ps u \<noteq> Idle})"
    by (simp add: wake_ok_def)
  then show "finite {u. (ps(t := p)) u \<noteq> Idle}"
    by (rule rev_finite_subset) auto
  show "finite (takers ps)"
    using ok by (simp add: wake_ok_def finite_takers)
qed

lemma wake_okI:
  "finite {u. ps u \<noteq> Idle} \<Longrightarrow> (\<And>w. ps w = RemWait \<Longrightarrow> n \<le> card (takers ps)) \<Longrightarrow> wake_ok n ps"
  by (auto simp: wake_ok_def)

lemma wake_ok_card: "wake_ok n ps \<Longrightarrow> ps w = RemWait \<Longrightarrow> n \<le> card (takers ps)"
  by (auto simp: wake_ok_def)

text \<open>
  One thread moves: it stays a taker (or the queue is empty), it starts to take or to wait, it
  adds an element and becomes a taker, it takes an element and stops being one, or it hands its
  being a taker over to the waiter it wakes.
\<close>

lemma wake_ok_move:
  assumes ok: "wake_ok n ps" and "taker (ps t) \<longrightarrow> taker p \<or> n = 0" and "p = RemWait \<longrightarrow> n = 0"
  shows "wake_ok n (ps(t := p))"
proof (rule wake_okI)
  show "finite {u. (ps(t := p)) u \<noteq> Idle}"
    by (rule wake_ok_finite [OF ok])
next
  fix w
  assume w: "(ps(t := p)) w = RemWait"
  show "n \<le> card (takers (ps(t := p)))"
  proof (cases "n = 0")
    case True
    then show ?thesis by simp
  next
    case False
    with w assms(3) have "n \<le> card (takers ps)"
      using wake_ok_card [OF ok, of w] by (auto split: if_splits)
    also have "\<dots> \<le> card (takers (ps(t := p)))"
      using False assms(2) wake_ok_finite(2) [OF ok]
      by (intro card_mono) (auto simp: takers_upd in_takers)
    finally show ?thesis .
  qed
qed

lemma wake_ok_push:
  assumes ok: "wake_ok n ps" and "\<not> taker (ps t)" and "taker p"
  shows "wake_ok (Suc n) (ps(t := p))"
proof (rule wake_okI)
  show "finite {u. (ps(t := p)) u \<noteq> Idle}"
    by (rule wake_ok_finite [OF ok])
next
  fix w
  assume "(ps(t := p)) w = RemWait"
  then have "n \<le> card (takers ps)"
    using assms(3) wake_ok_card [OF ok, of w] by (auto split: if_splits)
  then show "Suc n \<le> card (takers (ps(t := p)))"
    using assms wake_ok_finite(2) [OF ok] by (simp add: takers_upd in_takers)
qed

lemma wake_ok_pop:
  assumes ok: "wake_ok (Suc n) ps" and "p \<noteq> RemWait"
  shows "wake_ok n (ps(t := p))"
proof (rule wake_okI)
  show "finite {u. (ps(t := p)) u \<noteq> Idle}"
    by (rule wake_ok_finite [OF ok])
next
  fix w
  assume "(ps(t := p)) w = RemWait"
  then have "Suc n \<le> card (takers ps)"
    using assms(2) wake_ok_card [OF ok, of w] by (auto split: if_splits)
  also have "\<dots> \<le> card (insert t (takers (ps(t := p))))"
    using wake_ok_finite(2) [OF ok] by (intro card_mono) (auto simp: takers_upd)
  also have "\<dots> \<le> Suc (card (takers (ps(t := p))))"
    by (simp add: card_insert_le_m1 card_insert_if wake_ok_finite(2) [OF ok] takers_upd)
  finally show "n \<le> card (takers (ps(t := p)))" by simp
qed

lemma wake_ok_handover:
  assumes ok: "wake_ok n ps" and t: "taker (ps t)" and w: "ps w = RemWait"
  shows "wake_ok n (ps(w := RemWake, t := AddUnlock))"
proof (rule wake_okI)
  have "finite (insert t (insert w {u. ps u \<noteq> Idle}))"
    using ok by (simp add: wake_ok_def)
  then show "finite {u. (ps(w := RemWake, t := AddUnlock)) u \<noteq> Idle}"
    by (rule rev_finite_subset) (auto split: if_splits)
next
  have nw: "w \<notin> takers ps" "t \<noteq> w" "t \<in> takers ps"
    using t w by (auto simp: in_takers)
  have "takers (ps(w := RemWake, t := AddUnlock)) = insert w (takers ps - {t})"
    using nw by (simp add: takers_upd insert_Diff_if)
  moreover have "card (takers ps) = Suc (card (takers ps - {t}))"
    using nw(3) wake_ok_finite(2) [OF ok] by (rule card.remove [rotated])
  ultimately have "card (takers (ps(w := RemWake, t := AddUnlock))) = card (takers ps)"
    using nw wake_ok_finite(2) [OF ok] by simp
  then show "n \<le> card (takers (ps(w := RemWake, t := AddUnlock)))"
    using wake_ok_card [OF ok w] by simp
qed

lemma wake_inv_step: "wq_step s s' \<Longrightarrow> queue_inv s \<Longrightarrow> wake_inv s \<Longrightarrow> wake_inv s'"
proof (induction rule: wq_step.induct)
  case (add_push s t x)
  then show ?case
    using wake_ok_push [of "length (mq s)" "pcs s" t AddSignal] by (simp add: wake_inv_def)
next
  case (rem_pop s t x)
  then have "length (mq s) = Suc (length (tl (mq s)))"
    by (cases "mq s") (auto simp: queue_inv_def)
  then show ?case
    using rem_pop wake_ok_pop [of "length (tl (mq s))" "pcs s" "RemUnlock x" t]
    by (simp add: wake_inv_def)
next
  case (add_signal_wake s t w)
  then show ?case
    using wake_ok_handover [of "length (mq s)" "pcs s" t w] by (simp add: wake_inv_def)
next
  case (add_signal_none s t)
  then have ok: "wake_ok (length (mq s)) (pcs s)" and "\<nexists>w. ((pcs s)(t := AddUnlock)) w = RemWait"
    by (auto simp: wake_inv_def)
  then have "wake_ok (length (mq s)) ((pcs s)(t := AddUnlock))"
    using wake_ok_finite(1) [OF ok] by (intro wake_okI) blast+
  then show ?case by (simp add: wake_inv_def)
qed (auto simp: wake_inv_def simp del: fun_upd_apply intro!: wake_ok_move)

lemma reachable_wake_inv: "wq_reachable s \<Longrightarrow> wake_inv s"
proof (induction rule: wq_reachable.induct)
  case wq_start
  show ?case by (simp add: wake_inv_def wake_ok_def monitor_init_def)
next
  case (wq_next s s')
  then show ?case by (blast intro: wake_inv_step reachable_queue_inv)
qed

lemmas reachable_invs = reachable_mutex_inv reachable_queue_inv reachable_wake_inv

section \<open>The threads run the sequential operations\<close>

text \<open>Every step leaves the list alone, or is one \<open>add\<close>, or one \<open>remove\<close> of the element it pops.\<close>

lemma wq_step_op:
  assumes "wq_step s s'" and "queue_inv s"
  obtains (stay) "mq s' = mq s" "pushed s' = pushed s" "popped s' = popped s"
  | (add) x where "\<lparr>m_queue = mq s'\<rparr> = wq_add x \<lparr>m_queue = mq s\<rparr>" "pushed s' = pushed s @ [x]"
      "popped s' = popped s"
  | (remove) x where "wq_remove \<lparr>m_queue = mq s\<rparr> = Some (x, \<lparr>m_queue = mq s'\<rparr>)" "pushed s' = pushed s"
      "popped s' = popped s @ [x]"
  using assms(1)
proof (cases rule: wq_step.cases)
  case (add_push t x)
  then show ?thesis by (intro add [of x]) (simp_all add: wq_add_def)
next
  case (rem_pop t x)
  then have "mq s = x # tl (mq s)"
    using assms(2) by (cases "mq s") (auto simp: queue_inv_def)
  then have "wq_remove \<lparr>m_queue = mq s\<rparr> = Some (x, \<lparr>m_queue = tl (mq s)\<rparr>)"
    by (cases "mq s") (auto simp: wq_remove_def)
  with rem_pop show ?thesis by (intro remove [of x]) simp_all
qed (use stay in simp_all)

lemma reachable_ops:
  assumes "wq_reachable s"
  shows "\<exists>ops. q_run wq_add wq_remove ops wq_new = (popped s, \<lparr>m_queue = mq s\<rparr>) \<and> q_added ops = pushed s"
  using assms
proof (induction rule: wq_reachable.induct)
  case wq_start
  show ?case by (intro exI [of _ "[]"]) (simp add: monitor_init_def wq_new_def)
next
  case (wq_next s s')
  then obtain ops where ops: "q_run wq_add wq_remove ops wq_new = (popped s, \<lparr>m_queue = mq s\<rparr>)"
    "q_added ops = pushed s"
    by blast
  from wq_next.hyps(2) reachable_queue_inv [OF wq_next.hyps(1)] show ?case
  proof (cases rule: wq_step_op)
    case stay
    with ops show ?thesis by auto
  next
    case (add x)
    then have "q_run wq_add wq_remove [QAdd x] \<lparr>m_queue = mq s\<rparr> = ([], \<lparr>m_queue = mq s'\<rparr>)"
      by simp
    with q_run_append [OF ops(1) this] ops(2) add(2,3) show ?thesis
      by (intro exI [of _ "ops @ [QAdd x]"]) simp
  next
    case (remove x)
    then have "q_run wq_add wq_remove [QRemove] \<lparr>m_queue = mq s\<rparr> = ([x], \<lparr>m_queue = mq s'\<rparr>)"
      by simp
    with q_run_append [OF ops(1) this] ops(2) remove(2,3) show ?thesis
      by (intro exI [of _ "ops @ [QRemove]"]) simp
  qed
qed

lemma queue_conserves:
  assumes "wq_reachable s"
  shows "popped s @ mq s = pushed s"
proof -
  obtain ops where "q_run wq_add wq_remove ops wq_new = (popped s, \<lparr>m_queue = mq s\<rparr>)" "q_added ops = pushed s"
    using reachable_ops [OF assms] by blast
  then show ?thesis
    using wq.run_from_empty by fastforce
qed

section \<open>Progress and a concrete run\<close>

text \<open>Every thread that holds the mutex can take its next step.\<close>

lemma holder_moves:
  assumes "holds (pcs s t)"
  shows "\<exists>s'. wq_step s s' \<and> pcs s' t \<noteq> pcs s t"
proof (cases "pcs s t")
  case (AddPush x)
  then show ?thesis by (intro exI conjI, rule add_push) simp_all
next
  case AddSignal
  show ?thesis
  proof (cases "\<exists>w. pcs s w = RemWait")
    case True
    then obtain w where "pcs s w = RemWait" ..
    with AddSignal show ?thesis by (intro exI conjI, rule add_signal_wake) simp_all
  next
    case False
    then have "wq_step s (goto t AddUnlock s)"
      using AddSignal by (intro add_signal_none) auto
    with AddSignal show ?thesis by (intro exI [of _ "goto t AddUnlock s"]) simp
  qed
next
  case AddUnlock
  then show ?thesis by (intro exI conjI, rule add_unlock) simp_all
next
  case RemTest
  show ?thesis
  proof (cases "mq s = []")
    case True
    with RemTest show ?thesis by (intro exI conjI, rule rem_wait) simp_all
  next
    case False
    with RemTest show ?thesis by (intro exI conjI, rule rem_nonempty) simp_all
  qed
next
  case RemFront
  then show ?thesis by (intro exI conjI, rule rem_front) simp_all
next
  case (RemPop x)
  then show ?thesis by (intro exI conjI, rule rem_pop) simp_all
next
  case (RemUnlock x)
  then show ?thesis by (intro exI conjI, rule rem_unlock) simp_all
next
  case SizeRead
  then show ?thesis by (intro exI conjI, rule size_read) simp_all
next
  case (SizeUnlock n)
  then show ?thesis by (intro exI conjI, rule size_unlock) simp_all
qed (use assms in simp_all)

lemma taker_holds: "taker p \<Longrightarrow> p \<noteq> RemWake \<Longrightarrow> holds p"
  by (cases p) simp_all

lemma taker_or_holder_moves:
  assumes inv: "mutex_inv s" and t: "taker (pcs s t)"
  shows "\<exists>u s'. wq_step s s' \<and> (u = t \<or> mtx s = Some u) \<and> pcs s' u \<noteq> pcs s u"
proof (cases "mtx s")
  case None
  then have "\<not> holds (pcs s t)"
    using inv unfolding mutex_inv_def by (metis option.discI)
  then have "pcs s t = RemWake"
    using t taker_holds by blast
  then have "wq_step s (goto t RemTest (s\<lparr>mtx := Some t\<rparr>))"
    using None by (rule rem_relock)
  with \<open>pcs s t = RemWake\<close> show ?thesis by force
next
  case (Some h)
  then have "holds (pcs s h)"
    using inv unfolding mutex_inv_def by metis
  with Some holder_moves [of s h] show ?thesis by blast
qed

text \<open>
  A run of two threads: thread 0 finds the queue empty and waits, thread 1 pushes the element 7
  and has not signalled yet.
\<close>

definition demo_blocked :: "nat monitor" where
  "demo_blocked = \<lparr>mq = [7], mtx = Some 1, pcs = (\<lambda>_. Idle)(0 := RemWait, 1 := AddSignal),
     pushed = [7], popped = []\<rparr>"

lemma wq_next_eq: "wq_reachable s \<Longrightarrow> wq_step s s1 \<Longrightarrow> s1 = s' \<Longrightarrow> wq_reachable s'"
  using wq_next by blast

abbreviation demo_state :: "'a list \<Rightarrow> nat option \<Rightarrow> (nat \<Rightarrow> 'a wq_pc) \<Rightarrow> 'a list \<Rightarrow> 'a monitor" where
  "demo_state q m p a \<equiv> \<lparr>mq = q, mtx = m, pcs = p, pushed = a, popped = []\<rparr>"

lemma demo_blocked_reachable: "wq_reachable demo_blocked"
proof -
  let ?i = "\<lambda>_. Idle"
  have 0: "wq_reachable (demo_state [] None ?i [])"
    using wq_start by (simp add: monitor_init_def)
  have 1: "wq_reachable (demo_state [] None (?i(0 := RemLock)) [])"
    by (rule wq_next_eq [OF 0 call_remove [of _ 0]]) simp_all
  have 2: "wq_reachable (demo_state [] (Some 0) (?i(0 := RemTest)) [])"
    by (rule wq_next_eq [OF 1 rem_lock [of _ 0]]) simp_all
  have 3: "wq_reachable (demo_state [] None (?i(0 := RemWait)) [])"
    by (rule wq_next_eq [OF 2 rem_wait [of _ 0]]) simp_all
  have 4: "wq_reachable (demo_state [] None (?i(0 := RemWait, 1 := AddLock 7)) [])"
    by (rule wq_next_eq [OF 3 call_add [of _ 1 7]]) simp_all
  have 5: "wq_reachable (demo_state [] (Some 1) (?i(0 := RemWait, 1 := AddPush 7)) [])"
    by (rule wq_next_eq [OF 4 add_lock [of _ 1 7]]) simp_all
  have "wq_reachable (demo_state [7] (Some 1) (?i(0 := RemWait, 1 := AddSignal)) [7])"
    by (rule wq_next_eq [OF 5 add_push [of _ 1 7]]) simp_all
  then show ?thesis by (simp add: demo_blocked_def)
qed

section \<open>Properties\<close>

text \<open>
  Claim C1. In every interleaving of the threads, the elements popped so far followed by the
  elements in the list are the elements pushed so far, in order: no element is lost, duplicated
  or reordered. A thread about to call \<open>front\<close> or \<open>pop_front\<close> finds the list non-empty, and what it
  returns is the element it removes.
\<close>

theorem wqueue_conserves_order:
  assumes "wq_reachable s"
  shows "popped s @ mq s = pushed s \<and> (\<forall>t. pcs s t = RemFront \<longrightarrow> mq s \<noteq> []) \<and>
    (\<forall>t x. pcs s t = RemPop x \<longrightarrow> (\<exists>rest. mq s = x # rest))"
  using queue_conserves [OF assms] reachable_queue_inv [OF assms]
  unfolding queue_inv_def by (metis list.collapse)

theorem wqueue_conserves_order_witness:
  "popped demo_blocked @ mq demo_blocked = pushed demo_blocked"
  using wqueue_conserves_order [OF demo_blocked_reachable] by simp



text \<open>
  Claim C3. No wake-up is lost: while a thread is blocked in \<open>pthread_cond_wait\<close>, there are at
  least as many threads inside the queue about to take an element or to signal as there are
  elements; so with an element in the list a thread other than the blocked one can move.
\<close>

theorem wqueue_no_lost_wakeup:
  assumes "wq_reachable s" and "pcs s w = RemWait" and "mq s \<noteq> []"
  shows "length (mq s) \<le> card {t. taker (pcs s t)} \<and>
    (\<exists>u s'. u \<noteq> w \<and> wq_step s s' \<and> pcs s u \<noteq> Idle \<and> pcs s' u \<noteq> pcs s u)"
proof -
  have len: "length (mq s) \<le> card (takers (pcs s))"
    using reachable_wake_inv [OF assms(1)] assms(2) unfolding wake_inv_def by (rule wake_ok_card)
  then have "takers (pcs s) \<noteq> {}"
    using assms(3) by auto
  then obtain t where t: "taker (pcs s t)"
    by (auto simp: takers_def)
  have mutex: "mutex_inv s"
    by (rule reachable_mutex_inv [OF assms(1)])
  obtain u s' where u: "wq_step s s'" "u = t \<or> mtx s = Some u" "pcs s' u \<noteq> pcs s u"
    using taker_or_holder_moves [OF mutex t] by blast
  then have "taker (pcs s u) \<or> holds (pcs s u)"
    using t mutex by (auto simp: mutex_inv_def)
  then have "u \<noteq> w" and "pcs s u \<noteq> Idle"
    using assms(2) by auto
  with u len show ?thesis
    by (auto simp: takers_def)
qed

theorem wqueue_no_lost_wakeup_witness:
  "length (mq demo_blocked) \<le> card {t. taker (pcs demo_blocked t)}"
  using wqueue_no_lost_wakeup [OF demo_blocked_reachable, of 0] by (simp add: demo_blocked_def)

end
