(* ===== verification/Data_Plane.thy ===== *)
theory Data_Plane
  imports Link_Tables Wqueue
begin

text \<open>
  The packets: from ipop-tap through the send queue to the peer's channel or to the controller,
  and from a peer's channel (or the controller) through the receive queue to ipop-tap
  (\<open>DoPacketSend\<close>, \<open>HandleQueueSignal_w\<close>, \<open>HandlePacket\<close>, \<open>OnReadPacket\<close>, \<open>SendToTap\<close>,
  \<open>DoPacketRecv\<close> of \<open>src/tincanconnectionmanager.cc\<close>).
\<close>

section \<open>State\<close>

text \<open>
  The manager with the two global queues, whether the global pointer \<open>g_manager\<close> is set, and the
  number of \<open>MSG_QUEUESIGNAL\<close> messages pending in the packet-handling thread.
\<close>

record plane =
  pl_mgr :: mgr
  g_send_queue :: "byte list wqueue"
  g_recv_queue :: "byte list wqueue"
  g_manager :: bool
  pl_signals :: nat

definition kNullPeerId :: string where
  "kNullPeerId = ''00000000000000000000''"

section \<open>The queues\<close>

text \<open>
  \<open>DoPacketSend(buf, len)\<close>: \<open>Buffer(buf, len)\<close> copies \<open>len\<close> bytes from the memory behind \<open>buf\<close>.
\<close>

definition DoPacketSend :: "byte list \<Rightarrow> nat \<Rightarrow> plane \<Rightarrow> (nat \<times> plane \<times> io_event list) result" where
  "DoPacketSend buf n p =
     sbind (mem_read buf n) (\<lambda>packet.
       let p = p\<lparr>g_send_queue := wq_add packet (g_send_queue p)\<rparr> in
       if g_manager p then Inr (n, p\<lparr>pl_signals := pl_signals p + 1\<rparr>, [PostQueueSignal])
       else Inr (n, p, []))"

text \<open>
  \<open>DoPacketRecv(buf, len)\<close> on a queue that holds a packet (\<open>None\<close>: the caller waits): the result
  and the bytes copied to \<open>buf\<close>. A packet that does not fit is taken off the queue.
\<close>

definition DoPacketRecv :: "nat \<Rightarrow> plane \<Rightarrow> (int \<times> byte list \<times> plane) option" where
  "DoPacketRecv n p =
     (case wq_remove (g_recv_queue p) of
        None \<Rightarrow> None
      | Some (packet, q) \<Rightarrow>
          (let p = p\<lparr>g_recv_queue := q\<rparr> in
           if n < length packet then Some (-1, [], p)
           else Some (int (length packet), packet, p)))"

definition SendToTap :: "byte list \<Rightarrow> nat \<Rightarrow> plane \<Rightarrow> (nat \<times> plane) result" where
  "SendToTap buf n p =
     sbind (mem_read buf n) (\<lambda>packet.
       Inr (n, p\<lparr>g_recv_queue := wq_add packet (g_recv_queue p)\<rparr>))"

section \<open>Routing a packet\<close>

definition is_icc :: "byte list \<Rightarrow> bool" where
  "is_icc buf =
     (let offset = kIdBytesLen * 2 in
      buf ! offset = 0 \<and> buf ! (offset + 1) = 0x69 \<and> buf ! (offset + 2) = 0x70 \<and>
      buf ! (offset + 3) = 0x6f \<and> buf ! (offset + 4) = 0x70)"

definition source_id :: "jingle \<Rightarrow> byte list \<Rightarrow> string" where
  "source_id jg data = hex_encode jg (take kShortLen data)"

definition dest_id :: "jingle \<Rightarrow> byte list \<Rightarrow> string" where
  "dest_id jg data = hex_encode jg (take kShortLen (drop kIdBytesLen data))"

text \<open>
  The type byte of a message forwarded to the controller: none is stored for a packet with the
  ICC prefix whose sixth MAC byte is neither of the two known ones.
\<close>

definition forward_type :: "byte list \<Rightarrow> byte option" where
  "forward_type data =
     (if kHeaderSize + 6 < length data \<and> is_icc data
      then (if data ! (kHeaderSize + kICCMacOffset) = kICCPacket then Some kICCPacket
            else if data ! (kHeaderSize + kICCMacOffset) = kICCControl then Some kICCControl
            else None)
      else Some kTincanPacket)"

text \<open>\<open>forward_socket_->SendTo(msg, ..., forward_addr_, ...)\<close>.\<close>

definition forward :: "(nat \<Rightarrow> byte) \<Rightarrow> byte option \<Rightarrow> byte list \<Rightarrow> mgr \<Rightarrow> io_event list result" where
  "forward junk type data m =
     (case forward_socket m of
        None \<Rightarrow> Inl NullDeref
      | Some socket \<Rightarrow> Inr [UdpSend socket (build_msg junk type data) (forward_addr m)])"

definition HandlePacket ::
  "jingle \<Rightarrow> tstate \<Rightarrow> (nat \<Rightarrow> byte) \<Rightarrow> byte list \<Rightarrow> mgr \<Rightarrow> io_event list result" where
  "HandlePacket jg ts junk data m =
     (if length data < kHeaderSize then Inr []
      else
        (let dest = dest_id jg data in
         sbind (str_compare_sub dest 0 3 kNullPeerId) (\<lambda>c.
           if c = 0 \<or> short_uid_map m dest = None then forward junk (forward_type data) data m
           else
             (let t = the (short_uid_map m dest) in
              if t \<notin> live m then Inl UseAfterFree
              else if tp_writable ts t
              then (case tp_channel ts t of
                      Some channel \<Rightarrow> Inr [ChannelSend channel data]
                    | None \<Rightarrow> forward junk (Some kTincanPacket) data m)
              else forward junk (Some kTincanPacket) data m))))"

text \<open>
  \<open>HandleQueueSignal_w\<close>, the handler of a \<open>MSG_QUEUESIGNAL\<close> message (which the thread has taken
  off its queue): \<open>None\<close> where it would block on the empty send queue.
\<close>

definition HandleQueueSignal_w ::
  "jingle \<Rightarrow> tstate \<Rightarrow> (nat \<Rightarrow> byte) \<Rightarrow> plane \<Rightarrow> plane step option" where
  "HandleQueueSignal_w jg ts junk p =
     (case wq_remove (g_send_queue p) of
        None \<Rightarrow> None
      | Some (packet, q) \<Rightarrow>
          Some (sbind (HandlePacket jg ts junk packet (pl_mgr p)) (\<lambda>es.
            Inr (p\<lparr>g_send_queue := q\<rparr>, es))))"

text \<open>\<open>OnMessage\<close> with the message \<open>MSG_QUEUESIGNAL\<close>, the only one.\<close>

definition kMsgQueueSignal :: nat where "kMsgQueueSignal = 0"

definition OnMessage ::
  "jingle \<Rightarrow> tstate \<Rightarrow> (nat \<Rightarrow> byte) \<Rightarrow> nat \<Rightarrow> plane \<Rightarrow> plane step option" where
  "OnMessage jg ts junk message_id p =
     (let p = p\<lparr>pl_signals := pl_signals p - 1\<rparr> in
      if message_id = kMsgQueueSignal then HandleQueueSignal_w jg ts junk p else Some (Inr (p, [])))"

text \<open>\<open>OnReadPacket\<close>: a packet that arrives on the channel of a peer.\<close>

definition OnReadPacket :: "jingle \<Rightarrow> tstate \<Rightarrow> cref \<Rightarrow> byte list \<Rightarrow> plane \<Rightarrow> plane result" where
  "OnReadPacket jg ts channel data p =
     (if length data < kHeaderSize then Inr p
      else
        (let source = source_id jg data in
         case short_uid_map (pl_mgr p) source of
           None \<Rightarrow> Inr p
         | Some t \<Rightarrow>
             if t \<notin> live (pl_mgr p) then Inl UseAfterFree
             else if tp_channel ts t = Some channel
             then Inr (p\<lparr>g_recv_queue := wq_add data (g_recv_queue p)\<rparr>)
             else Inr p))"

section \<open>Lemmas\<close>

text \<open>
  The test for the null destination compares three characters of the id with the whole constant
  of twenty.
\<close>

lemma null_test_dead: "str_compare_sub dest 0 3 kNullPeerId \<noteq> Inr 0"
proof -
  have "length (take 3 dest) \<noteq> length kNullPeerId"
    by (simp add: kNullPeerId_def)
  then have "take 3 dest \<noteq> kNullPeerId"
    by metis
  then show ?thesis
    by (simp add: str_compare_sub_0)
qed

lemma HandlePacket_eq:
  assumes "kHeaderSize \<le> length data"
  shows "HandlePacket jg ts junk data m =
    (case short_uid_map m (dest_id jg data) of
       None \<Rightarrow> forward junk (forward_type data) data m
     | Some t \<Rightarrow>
         if t \<notin> live m then Inl UseAfterFree
         else if tp_writable ts t \<and> tp_channel ts t \<noteq> None
         then Inr [ChannelSend (the (tp_channel ts t)) data]
         else forward junk (Some kTincanPacket) data m)"
proof -
  obtain c where c: "str_compare_sub (dest_id jg data) 0 3 kNullPeerId = Inr c"
    by (simp add: str_compare_sub_0)
  then have "c \<noteq> 0"
    using null_test_dead [of "dest_id jg data"] by auto
  then show ?thesis
    using assms c by (auto simp: HandlePacket_def Let_def split: option.splits)
qed

lemma links_ok_short:
  assumes "links_ok m" and "short_uid_map m sub = Some t"
  shows "\<exists>uid ps. uid_map m uid = Some ps \<and> ps_transport ps = t \<and> sub_uid uid = sub \<and> t \<in> live m"
proof -
  obtain uid ps where "uid_map m uid = Some ps" "ps_transport ps = t" "sub_uid uid = sub"
    using assms tables_okD(5) unfolding links_ok_def by metis
  moreover have "t \<in> live m"
    using assms(1) calculation tables_okD(2) unfolding links_ok_def by metis
  ultimately show ?thesis by blast
qed

lemma forward_Inr [simp]:
  "forward_socket m = Some s \<Longrightarrow>
     forward junk ty data m = Inr [UdpSend s (build_msg junk ty data) (forward_addr m)]"
  by (simp add: forward_def)

lemma HandlePacket_total:
  assumes "links_ok m" and "forward_socket m = Some s"
  shows "\<exists>es. HandlePacket jg ts junk data m = Inr es"
proof (cases "kHeaderSize \<le> length data")
  case True
  show ?thesis
  proof (cases "short_uid_map m (dest_id jg data)")
    case None
    then show ?thesis using assms(2) by (simp add: HandlePacket_eq [OF True])
  next
    case (Some t)
    then have "t \<in> live m"
      using links_ok_short [OF assms(1)] by blast
    then show ?thesis using Some assms(2) by (simp add: HandlePacket_eq [OF True])
  qed
next
  case False
  then show ?thesis by (simp add: HandlePacket_def)
qed

lemma OnReadPacket_total: "links_ok (pl_mgr p) \<Longrightarrow> \<exists>p'. OnReadPacket jg ts ch data p = Inr p'"
  using links_ok_short by (fastforce simp: OnReadPacket_def Let_def split: option.splits)

section \<open>Runs of the packet path\<close>

text \<open>
  The steps of the threads of ipop-tap, of the packet-handling thread and of the link-setup thread
  (which may change the manager arbitrarily here).
\<close>

inductive pl_step :: "jingle \<Rightarrow> plane \<Rightarrow> plane \<Rightarrow> bool" for jg where
  pl_send: "DoPacketSend buf n p = Inr (r, p', es) \<Longrightarrow> pl_step jg p p'"
| pl_signal: "0 < pl_signals p \<Longrightarrow> OnMessage jg ts junk i p = Some (Inr (p', es)) \<Longrightarrow>
    i = kMsgQueueSignal \<Longrightarrow> pl_step jg p p'"
| pl_read: "OnReadPacket jg ts ch data p = Inr p' \<Longrightarrow> pl_step jg p p'"
| pl_recv: "DoPacketRecv n p = Some (r, bs, p') \<Longrightarrow> pl_step jg p p'"
| pl_tap: "SendToTap buf n p = Inr (r, p') \<Longrightarrow> pl_step jg p p'"
| pl_links: "pl_step jg p (p\<lparr>pl_mgr := m\<rparr>)"

definition plane_new :: "mgr \<Rightarrow> bool \<Rightarrow> plane" where
  "plane_new m g = \<lparr>pl_mgr = m, g_send_queue = wq_new, g_recv_queue = wq_new, g_manager = g,
     pl_signals = 0\<rparr>"

definition signals_ok :: "plane \<Rightarrow> bool" where
  "signals_ok p \<longleftrightarrow> pl_signals p \<le> length (m_queue (g_send_queue p))"

lemma OnMessage_signal:
  assumes "OnMessage jg ts junk kMsgQueueSignal p = Some (Inr (p', es))"
  shows "\<exists>packet q. wq_remove (g_send_queue p) = Some (packet, q) \<and>
    HandlePacket jg ts junk packet (pl_mgr p) = Inr es \<and>
    p' = p\<lparr>pl_signals := pl_signals p - 1, g_send_queue := q\<rparr>"
  using assms
  by (auto simp: OnMessage_def HandleQueueSignal_w_def Let_def tincan_simps split: option.splits)

lemma signals_ok_step: "pl_step jg p p' \<Longrightarrow> signals_ok p \<Longrightarrow> signals_ok p'"
proof (induction rule: pl_step.induct)
  case (pl_send buf n p r p' es)
  then show ?case
    by (auto simp: DoPacketSend_def tincan_simps Let_def signals_ok_def wq.contents_add
        split: if_splits)
next
  case (pl_signal p ts junk i p' es)
  then obtain packet q where q: "wq_remove (g_send_queue p) = Some (packet, q)"
    and p': "p' = p\<lparr>pl_signals := pl_signals p - 1, g_send_queue := q\<rparr>"
    using OnMessage_signal by blast
  from wq.remove_Some [OF q] p' pl_signal.prems show ?case
    by (simp add: signals_ok_def)
next
  case (pl_read ts ch data p p')
  then show ?case
    by (auto simp: OnReadPacket_def Let_def signals_ok_def split: if_splits option.splits)
next
  case (pl_recv n p r bs p')
  then show ?case
    by (auto simp: DoPacketRecv_def Let_def signals_ok_def split: if_splits option.splits)
next
  case (pl_tap buf n p r p')
  then show ?case
    by (auto simp: SendToTap_def tincan_simps signals_ok_def)
next
  case (pl_links p m)
  then show ?case by (simp add: signals_ok_def)
qed

lemma signals_ok_steps: "(pl_step jg)\<^sup>*\<^sup>* p p' \<Longrightarrow> signals_ok p \<Longrightarrow> signals_ok p'"
  by (induction rule: rtranclp_induct) (blast intro: signals_ok_step)+

section \<open>A concrete pair of nodes\<close>

definition demo_ts :: "bool \<Rightarrow> tstate" where
  "demo_ts up = \<lparr>tp_readable = (\<lambda>_. up), tp_writable = (\<lambda>_. up), tp_was_writable = (\<lambda>_. True),
     tp_channel = (\<lambda>_. Some 2), ch_ports = (\<lambda>_. [])\<rparr>"

lemma hex_byte_0: "hex_byte 0 = [CHR ''0'', CHR ''0'']"
  by (simp add: hex_byte_def hex_digit_def, code_simp)

lemma hex_encode0_zeros: "hex_encode0 (replicate n 0) = replicate (2 * n) (CHR ''0'')"
  by (induction n) (simp_all add: hex_encode0_def hex_byte_0)

lemma demo_zero_id: "hex_encode0 (replicate 8 0) = replicate 16 (CHR ''0'')"
  by (simp add: hex_encode0_zeros)

lemma demo_zero_packet:
  "dest_id jingle0 (replicate 40 0 @ xs) = replicate 16 (CHR ''0'')"
  "source_id jingle0 (replicate 40 0 @ xs) = replicate 16 (CHR ''0'')"
  using demo_zero_id
  by (simp_all add: dest_id_def source_id_def jingle0_def kShortLen_def kIdBytesLen_def)

section \<open>Properties\<close>

text \<open>
  Claim C14. A packet with a full header is never lost or duplicated by the routing: with the
  tables in order and the forwarding socket set, \<open>HandlePacket\<close> sends it exactly once and does
  nothing else. It goes unchanged over the channel of the linked peer whose shortened id is the
  packet's destination when that peer's transport is writable and has a channel, and to the
  controller, behind the version byte and a type byte, in every other case.
\<close>

theorem packet_routed_once:
  assumes "links_ok m" and "forward_socket m = Some s" and "40 \<le> length data"
  shows "(\<exists>uid ps ch. uid_map m uid = Some ps \<and> sub_uid uid = dest_id jg data \<and>
        tp_writable ts (ps_transport ps) \<and> tp_channel ts (ps_transport ps) = Some ch \<and>
        HandlePacket jg ts junk data m = Inr [ChannelSend ch data]) \<or>
    (\<exists>type. HandlePacket jg ts junk data m = Inr [UdpSend s (kIpopVer # type # data) (forward_addr m)] \<and>
      (\<forall>t. short_uid_map m (dest_id jg data) = Some t \<longrightarrow>
         type = kTincanPacket \<and> \<not> (tp_writable ts t \<and> tp_channel ts t \<noteq> None)))"
proof -
  have len: "kHeaderSize \<le> length data"
    using assms(3) by (simp add: kHeaderSize_def)
  show ?thesis
  proof (cases "short_uid_map m (dest_id jg data)")
    case None
    then show ?thesis
      using assms(2) by (cases "forward_type data") (simp_all add: HandlePacket_eq [OF len])
  next
    case (Some t)
    then obtain uid ps where u: "uid_map m uid = Some ps" "ps_transport ps = t"
      "sub_uid uid = dest_id jg data" "t \<in> live m"
      using links_ok_short [OF assms(1)] by blast
    show ?thesis
    proof (cases "tp_writable ts t \<and> tp_channel ts t \<noteq> None")
      case True
      then show ?thesis
        using u Some by (auto simp: HandlePacket_eq [OF len] intro!: exI [of _ uid] exI [of _ ps])
    next
      case False
      then have "HandlePacket jg ts junk data m =
          Inr [UdpSend s (kIpopVer # kTincanPacket # data) (forward_addr m)]"
        using u(4) Some assms(2) by (simp add: HandlePacket_eq [OF len])
      then show ?thesis
        using False Some by auto
    qed
  qed
qed

theorem packet_routed_once_witness:
  "HandlePacket jingle0 (demo_ts False) (\<lambda>_. 9) (replicate 40 0 @ [7]) demo_linked =
     Inr [UdpSend Sock6 (kIpopVer # kTincanPacket # replicate 40 0 @ [7]) sa_nil]"
proof -
  have s: "forward_socket demo_linked = Some Sock6" "40 \<le> length (replicate 40 0 @ [7 :: byte])"
    by (simp_all add: demo_linked_def)
  have r: "short_uid_map demo_linked (dest_id jingle0 (replicate 40 0 @ [7])) = Some (TRef 1)"
    "forward_addr demo_linked = sa_nil"
    by (simp_all add: demo_linked_def demo_zero_packet demo_mgr_def mgr_new_def)
  from packet_routed_once [OF demo_linked_ok s, of jingle0 "demo_ts False" "\<lambda>_. 9"] r
  show ?thesis by (auto simp: demo_ts_def)
qed

text \<open>
  A packet for a peer without an entry in the routing table goes to the controller with
  a type that tells the inter-controller messages apart: the MAC prefix 00:69:70:6f:70 followed by
  03 or 04 gives the ICC control or the ICC packet type, and with any other sixth byte the type is
  whatever the memory of the message held; everything else is a tincan packet.
\<close>

theorem packet_icc_type:
  assumes "forward_socket m = Some s" and "40 \<le> length data"
    and "short_uid_map m (dest_id jg data) = None"
  shows "HandlePacket jg ts junk data m = Inr [UdpSend s (kIpopVer #
      (if 46 < length data \<and> take 5 (drop 40 data) = [0, 0x69, 0x70, 0x6f, 0x70]
       then (if data ! 45 = 3 then kICCControl else if data ! 45 = 4 then kICCPacket else junk 1)
       else kTincanPacket) # data) (forward_addr m)]"
proof -
  have len: "kHeaderSize \<le> length data"
    using assms(2) by (simp add: kHeaderSize_def)
  have icc: "is_icc data \<longleftrightarrow> take 5 (drop 40 data) = [0, 0x69, 0x70, 0x6f, 0x70]"
    if "46 < length data"
  proof -
    have "take 5 (drop 40 data) = [data ! 40, data ! 41, data ! 42, data ! 43, data ! 44]"
      using that by (intro nth_equalityI) (auto simp: less_Suc_eq numeral_eq_Suc)
    then show ?thesis
      by (simp add: is_icc_def kIdBytesLen_def)
  qed
  show ?thesis
    using assms(1,3) icc
    by (auto simp: HandlePacket_eq [OF len] forward_type_def kHeaderSize_def kICCMacOffset_def
        kICCPacket_def kICCControl_def)
qed

theorem packet_icc_type_witness:
  "HandlePacket jingle0 (demo_ts False) (\<lambda>_. 9) (replicate 40 0 @ [0, 0x69, 0x70, 0x6f, 0x70, 5, 1])
      (demo_linked\<lparr>short_uid_map := Map.empty\<rparr>) =
   Inr [UdpSend Sock6 (kIpopVer # 9 # replicate 40 0 @ [0, 0x69, 0x70, 0x6f, 0x70, 5, 1])
     (forward_addr demo_linked)]"
proof -
  let ?d = "replicate 40 0 @ [0, 0x69, 0x70, 0x6f, 0x70, 5, 1] :: byte list"
  let ?m = "demo_linked\<lparr>short_uid_map := Map.empty\<rparr>"
  have "forward_socket ?m = Some Sock6" "40 \<le> length ?d" "short_uid_map ?m (dest_id jingle0 ?d) = None"
    by (simp_all add: demo_linked_def)
  from packet_icc_type [OF this, of "demo_ts False" "\<lambda>_. 9"] show ?thesis
    by (simp add: nth_append)
qed

text \<open>
  The test for the null destination never succeeds: \<open>compare(0, 3, kNullPeerId)\<close> compares
  three characters with all twenty zeros of the constant. So a packet for the null id is not
  forwarded to the controller when a linked peer's id starts with sixteen zeros: it goes to that
  peer.
\<close>

theorem packet_null_id_not_recognised:
  assumes "links_ok m" and "40 \<le> length data" and "dest_id jg data = replicate 16 (CHR ''0'')"
    and "short_uid_map m (replicate 16 (CHR ''0'')) = Some t"
    and "tp_writable ts t" and "tp_channel ts t = Some ch"
  shows "str_compare_sub (dest_id jg data) 0 3 kNullPeerId \<noteq> Inr 0 \<and>
    HandlePacket jg ts junk data m = Inr [ChannelSend ch data]"
proof -
  have len: "kHeaderSize \<le> length data"
    using assms(2) by (simp add: kHeaderSize_def)
  have "t \<in> live m"
    using links_ok_short [OF assms(1,4)] by blast
  then show ?thesis
    using assms(3-6) null_test_dead by (simp add: HandlePacket_eq [OF len])
qed

theorem packet_null_id_not_recognised_witness:
  "HandlePacket jingle0 (demo_ts True) (\<lambda>_. 9) (replicate 40 0 @ [7]) demo_linked =
     Inr [ChannelSend 2 (replicate 40 0 @ [7])]"
proof -
  have "40 \<le> length (replicate 40 0 @ [7 :: byte])"
    "dest_id jingle0 (replicate 40 0 @ [7]) = replicate 16 (CHR ''0'')"
    "short_uid_map demo_linked (replicate 16 (CHR ''0'')) = Some (TRef 1)"
    "tp_writable (demo_ts True) (TRef 1)" "tp_channel (demo_ts True) (TRef 1) = Some 2"
    by (simp_all add: demo_zero_packet demo_linked_def demo_ts_def)
  from packet_null_id_not_recognised [OF demo_linked_ok this] show ?thesis by blast
qed

text \<open>
  Claim C15. A packet is taken from a peer's channel only if it has a full header, its source is the
  shortened id of a linked peer and it arrived on the channel of that very peer's transport; then
  it is the last one in the receive queue, unchanged. Any other packet is dropped without effect.
\<close>

theorem packet_source_checked:
  assumes "links_ok (pl_mgr p)"
  shows "OnReadPacket jg ts ch data p =
    (if 40 \<le> length data \<and> (\<exists>uid ps. uid_map (pl_mgr p) uid = Some ps \<and>
          sub_uid uid = source_id jg data \<and>
          short_uid_map (pl_mgr p) (sub_uid uid) = Some (ps_transport ps) \<and>
          tp_channel ts (ps_transport ps) = Some ch)
     then Inr (p\<lparr>g_recv_queue := wq_add data (g_recv_queue p)\<rparr>) else Inr p)"
proof (cases "short_uid_map (pl_mgr p) (source_id jg data)")
  case None
  then show ?thesis
    by (auto simp: OnReadPacket_def Let_def)
next
  case (Some t)
  then obtain uid ps where u: "uid_map (pl_mgr p) uid = Some ps" "ps_transport ps = t"
    "sub_uid uid = source_id jg data" "t \<in> live (pl_mgr p)"
    using links_ok_short [OF assms] by blast
  have "(\<exists>uid ps. uid_map (pl_mgr p) uid = Some ps \<and> sub_uid uid = source_id jg data \<and>
      short_uid_map (pl_mgr p) (sub_uid uid) = Some (ps_transport ps) \<and>
      tp_channel ts (ps_transport ps) = Some ch) \<longleftrightarrow> tp_channel ts t = Some ch" (is "?L = ?R")
  proof
    show "?L \<Longrightarrow> ?R" using Some by auto
    show "?R \<Longrightarrow> ?L" using u Some by (intro exI [of _ uid] exI [of _ ps]) simp
  qed
  then show ?thesis
    using u(4) Some by (auto simp: OnReadPacket_def Let_def kHeaderSize_def)
qed

theorem packet_source_checked_witness:
  "OnReadPacket jingle0 (demo_ts True) 3 (replicate 40 0 @ [7]) (plane_new demo_linked True) =
     Inr (plane_new demo_linked True)"
  using packet_source_checked [of "plane_new demo_linked True" jingle0 "demo_ts True" 3]
    demo_linked_ok
  by (simp add: plane_new_def demo_ts_def)

text \<open>
  Claim C13. A packet crosses a link unchanged: what ipop-tap sends on one node to a linked peer
  whose transport is writable comes out of \<open>DoPacketRecv\<close> on the peer, byte for byte, when the peer
  has a link for the packet's source on the channel it arrives on, and the queues are as before.
\<close>

theorem packet_end_to_end:
  assumes "m_queue (g_send_queue pa) = []" and "g_manager pa" and "40 \<le> length data"
    and "links_ok (pl_mgr pa)" and "short_uid_map (pl_mgr pa) (dest_id jg data) = Some ta"
    and "tp_writable tsa ta" and "tp_channel tsa ta = Some cha"
    and "links_ok (pl_mgr pb)" and "short_uid_map (pl_mgr pb) (source_id jg data) = Some tb"
    and "tp_channel tsb tb = Some chb"
    and "m_queue (g_recv_queue pb) = []" and "length data \<le> n"
  shows "\<exists>pa' pb'. DoPacketSend data (length data) pa = Inr (length data, pa', [PostQueueSignal]) \<and>
    OnMessage jg tsa junk kMsgQueueSignal pa' = Some (Inr (pa, [ChannelSend cha data])) \<and>
    OnReadPacket jg tsb chb data pb = Inr pb' \<and>
    DoPacketRecv n pb' = Some (int (length data), data, pb)"
proof -
  have len: "kHeaderSize \<le> length data"
    using assms(3) by (simp add: kHeaderSize_def)
  have live: "ta \<in> live (pl_mgr pa)" "tb \<in> live (pl_mgr pb)"
    using links_ok_short [OF assms(4,5)] links_ok_short [OF assms(8,9)] by blast+
  let ?pa = "pa\<lparr>g_send_queue := wq_add data (g_send_queue pa), pl_signals := pl_signals pa + 1\<rparr>"
  let ?pb = "pb\<lparr>g_recv_queue := wq_add data (g_recv_queue pb)\<rparr>"
  obtain q where q: "wq_remove (wq_add data (g_send_queue pa)) = Some (data, q)" "m_queue q = []"
    using wq.remove_add_empty [OF assms(1)] by blast
  have q': "q = g_send_queue pa"
    using q(2) assms(1) by simp
  obtain r where r: "wq_remove (wq_add data (g_recv_queue pb)) = Some (data, r)" "m_queue r = []"
    using wq.remove_add_empty [OF assms(11)] by blast
  have r': "r = g_recv_queue pb"
    using r(2) assms(11) by simp
  have "DoPacketSend data (length data) pa = Inr (length data, ?pa, [PostQueueSignal])"
    using assms(2) by (simp add: DoPacketSend_def)
  moreover have "OnMessage jg tsa junk kMsgQueueSignal ?pa = Some (Inr (pa, [ChannelSend cha data]))"
    using q q' live(1) assms(5-7)
    by (simp add: OnMessage_def HandleQueueSignal_w_def HandlePacket_eq [OF len])
  moreover have "OnReadPacket jg tsb chb data pb = Inr ?pb"
    using live(2) assms(9,10) len by (simp add: OnReadPacket_def)
  moreover have "DoPacketRecv n ?pb = Some (int (length data), data, pb)"
    using r r' assms(12) by (simp add: DoPacketRecv_def)
  ultimately show ?thesis by blast
qed

theorem packet_end_to_end_witness:
  "\<exists>pa' pb'. OnMessage jingle0 (demo_ts True) (\<lambda>_. 0) kMsgQueueSignal pa' =
       Some (Inr (plane_new demo_linked True, [ChannelSend 2 (replicate 40 0 @ [7])])) \<and>
     DoPacketRecv 1500 pb' = Some (41, replicate 40 0 @ [7], plane_new demo_linked True)"
proof -
  let ?d = "replicate 40 0 @ [7] :: byte list" and ?p = "plane_new demo_linked True"
  have "short_uid_map (pl_mgr ?p) (dest_id jingle0 ?d) = Some (TRef 1)"
    "short_uid_map (pl_mgr ?p) (source_id jingle0 ?d) = Some (TRef 1)"
    by (simp_all add: plane_new_def demo_zero_packet demo_linked_def)
  note routes = this
  have "m_queue (g_send_queue ?p) = []" "g_manager ?p" "40 \<le> length ?d" "links_ok (pl_mgr ?p)"
    "m_queue (g_recv_queue ?p) = []" "length ?d \<le> 1500"
    "tp_writable (demo_ts True) (TRef 1)" "tp_channel (demo_ts True) (TRef 1) = Some 2"
    using demo_linked_ok by (simp_all add: plane_new_def wq_new_def demo_ts_def)
  from packet_end_to_end [OF this(1-4) routes(1) this(7,8,4) routes(2) this(8,5,6)]
  show ?thesis by fastforce
qed

text \<open>
  The packet-handling thread never blocks on the send queue: in every run of the packet
  path, from empty queues, there are at least as many packets in the send queue as signals
  pending, so a pending signal finds a packet; and \<open>DoPacketRecv\<close> takes a packet that does not fit
  its buffer off the queue, reporting an error.
\<close>

theorem packet_signal_never_blocks:
  assumes "(pl_step jg)\<^sup>*\<^sup>* (plane_new m g) p"
  shows "pl_signals p \<le> length (m_queue (g_send_queue p)) \<and>
    (0 < pl_signals p \<longrightarrow> OnMessage jg ts junk kMsgQueueSignal p \<noteq> None) \<and>
    (\<forall>x xs. m_queue (g_recv_queue p) = x # xs \<and> n < length x \<longrightarrow>
       DoPacketRecv n p = Some (-1, [], p\<lparr>g_recv_queue := \<lparr>m_queue = xs\<rparr>\<rparr>))"
proof -
  have ok: "pl_signals p \<le> length (m_queue (g_send_queue p))"
    using signals_ok_steps [OF assms] by (simp add: signals_ok_def plane_new_def)
  have "OnMessage jg ts junk kMsgQueueSignal p \<noteq> None" if "0 < pl_signals p"
  proof -
    from that ok obtain r where "wq_remove (g_send_queue p) = Some r"
      using wq.remove_None [of "g_send_queue p"] by (cases "wq_remove (g_send_queue p)") auto
    then show ?thesis
      by (cases r) (simp add: OnMessage_def HandleQueueSignal_w_def Let_def)
  qed
  moreover have "DoPacketRecv n p = Some (-1, [], p\<lparr>g_recv_queue := \<lparr>m_queue = xs\<rparr>\<rparr>)"
    if "m_queue (g_recv_queue p) = x # xs" "n < length x" for x xs
  proof -
    have "wq_remove (g_recv_queue p) = Some (x, \<lparr>m_queue = xs\<rparr>)"
      using that(1) by (simp add: wq_remove_def)
    then show ?thesis
      using that(2) by (simp add: DoPacketRecv_def)
  qed
  ultimately show ?thesis
    using ok by blast
qed

theorem packet_signal_never_blocks_witness:
  "\<exists>p. pl_signals p = 1 \<and> OnMessage jingle0 (demo_ts True) (\<lambda>_. 0) kMsgQueueSignal p \<noteq> None"
proof -
  obtain p where p: "DoPacketSend [1, 2] 2 (plane_new demo_linked True) = Inr (2, p, [PostQueueSignal])"
    and s: "pl_signals p = 1"
    by (auto simp: DoPacketSend_def plane_new_def mem_read_def)
  from p have "pl_step jingle0 (plane_new demo_linked True) p"
    by (rule pl_send)
  then have "(pl_step jingle0)\<^sup>*\<^sup>* (plane_new demo_linked True) p"
    by blast
  from packet_signal_never_blocks [OF this, of "demo_ts True" "\<lambda>_. 0" 0] s show ?thesis by auto
qed

end
