(* ===== verification/Candidates.thy ===== *)
theory Candidates
  imports Link_Tables
begin

text \<open>
  The ICE candidates of a link: printing the local ones and sending them to the peer with the
  node's fingerprint (\<open>OnCandidatesReady\<close>, \<open>OnCandidatesAllocationDone\<close>), parsing those of the
  peer and handing them to the transport (\<open>CreateConnections\<close>, all of
  \<open>src/tincanconnectionmanager.cc\<close>).
\<close>

section \<open>Printing\<close>

text \<open>The name of the network up to its first space; \<open>find\<close> gives \<open>npos\<close> when there is none.\<close>

definition interface_name :: "candidate \<Rightarrow> string" where
  "interface_name c = take (unat (str_find (c_network_name c) (CHR '' ''))) (c_network_name c)"

definition candidate_fields :: "jingle \<Rightarrow> candidate \<Rightarrow> string list" where
  "candidate_fields jg c =
     [c_id c, show_int (c_component c), c_protocol c, ip_to_string jg (c_address c),
      show_nat (unat (sa_port (c_address c))), show_nat (unat (c_priority c)), c_username c,
      c_password c, c_type c, interface_name c, show_nat (unat (c_generation c)), c_foundation c]"

text \<open>\<open>oss << a << kCandidateDelim << b << ...\<close>.\<close>

definition kCandidateDelim :: char where "kCandidateDelim = CHR '':''"

fun delimited :: "string list \<Rightarrow> string" where
  "delimited [] = []"
| "delimited [w] = w"
| "delimited (w # v # ws) = w @ kCandidateDelim # delimited (v # ws)"

definition candidate_string :: "jingle \<Rightarrow> candidate \<Rightarrow> string" where
  "candidate_string jg c = delimited (candidate_fields jg c)"

definition add_candidate :: "jingle \<Rightarrow> string \<Rightarrow> candidate \<Rightarrow> string set \<Rightarrow> string set" where
  "add_candidate jg kTapName c l =
     (if str_compare (c_network_name c) kTapName = 0 then l else insert (candidate_string jg c) l)"

text \<open>
  \<open>uid_map_[uid]\<close> of a peer without a link gives a null pointer, through which the handlers then
  read. \<open>kTapName\<close> is the global that the command line sets.
\<close>

definition OnCandidatesReady ::
  "jingle \<Rightarrow> string \<Rightarrow> tref \<Rightarrow> candidate list \<Rightarrow> mgr \<Rightarrow> mgr result" where
  "OnCandidatesReady jg kTapName t candidates m =
     (let (uid, tm) = map_index (transport_map m) t '''';
          m = m\<lparr>transport_map := tm\<rparr>
      in case uid_map m uid of
           None \<Rightarrow> Inl NullDeref
         | Some ps \<Rightarrow>
             Inr (m\<lparr>uid_map := (uid_map m)(uid \<mapsto>
               ps\<lparr>ps_candidate_list := fold (add_candidate jg kTapName) candidates (ps_candidate_list ps)\<rparr>)\<rparr>))"

text \<open>The list of candidates of the message, in the order of a \<open>std::set\<close> of strings.\<close>

definition candidates_data :: "string \<Rightarrow> string set \<Rightarrow> string" where
  "candidates_data fpr l = fpr @ concat (map (\<lambda>c. CHR '' '' # c) (sorted_list_of_set l))"

definition OnCandidatesAllocationDone :: "'s sender \<Rightarrow> tref \<Rightarrow> mgr \<times> 's \<Rightarrow> (mgr \<times> 's) step" where
  "OnCandidatesAllocationDone send t st =
     (case st of (m, s) \<Rightarrow>
        (let (uid, tm) = map_index (transport_map m) t '''';
             m = m\<lparr>transport_map := tm\<rparr>
         in case uid_map m uid of
              None \<Rightarrow> Inl NullDeref
            | Some ps \<Rightarrow>
                (let data = candidates_data (fingerprint m) (ps_candidate_list ps) in
                 if transport_map m t \<noteq> None
                 then ebind (send (ps_overlay_id ps) (fst (map_index (transport_map m) t ''''))
                   data kConResp s) (\<lambda>s. Inr ((m, s), []))
                 else Inr ((m, s), []))))"

section \<open>Parsing\<close>

text \<open>
  One word of the string: a candidate if it has at least twelve fields. \<open>atoi\<close> of a number that
  does not fit an \<open>int\<close> is undefined; the \<open>int\<close> results become \<open>uint32\<close> arguments.
\<close>

definition parse_candidate :: "jingle \<Rightarrow> string \<Rightarrow> candidate list result" where
  "parse_candidate jg word =
     (let fields = split_at jg word kCandidateDelim in
      if 12 \<le> length fields
      then
        sbind (atoi (fields ! 1)) (\<lambda>component.
        sbind (atoi (fields ! 4)) (\<lambda>port.
        sbind (atoi (fields ! 5)) (\<lambda>priority.
        sbind (atoi (fields ! 10)) (\<lambda>generation.
          Inr [\<lparr>c_id = fields ! 0, c_component = component, c_protocol = fields ! 2,
            c_address = addr_make jg (fields ! 3) port, c_priority = of_int priority,
            c_username = fields ! 6, c_password = fields ! 7, c_type = fields ! 8,
            c_network_name = fields ! 9, c_generation = of_int generation,
            c_foundation = fields ! 11\<rparr>]))))
      else Inr [])"

text \<open>
  The loop over the stream: the word of the extraction that fails is still looked at, and the
  stream is tested after it.
\<close>

function parse_candidates :: "jingle \<Rightarrow> string \<Rightarrow> candidate list \<Rightarrow> candidate list result" where
  "parse_candidates jg s acc =
     (case iss_extract s of (word, rest, ok) \<Rightarrow>
        sbind (parse_candidate jg word) (\<lambda>c.
          if ok then parse_candidates jg rest (acc @ c) else Inr (acc @ c)))"
  by pat_completeness auto

termination
  by (relation "measure (\<lambda>(jg, s, acc). length s)") (auto dest: iss_extract_shorter [OF sym])

declare parse_candidates.simps [simp del]

definition CreateConnections :: "jingle \<Rightarrow> string \<Rightarrow> string \<Rightarrow> mgr \<Rightarrow> (bool \<times> mgr \<times> io_event list) result"
where
  "CreateConnections jg uid candidates_string m =
     (case uid_map m uid of
        None \<Rightarrow> Inr (False, m, [])
      | Some ps \<Rightarrow>
          if 0 < length (ps_candidates ps) then Inr (False, m, [])
          else
            sbind (parse_candidates jg candidates_string (ps_candidates ps)) (\<lambda>candidates.
              if ps_transport ps \<notin> live m then Inl UseAfterFree
              else Inr (True, m\<lparr>uid_map := (uid_map m)(uid \<mapsto> ps\<lparr>ps_candidates := candidates\<rparr>)\<rparr>,
                     [TransportCall (ps_transport ps) (RemoteCandidates candidates)])))"

section \<open>Lemmas on the words of a candidate\<close>

definition clean :: "string \<Rightarrow> bool" where
  "clean w \<longleftrightarrow> (\<forall>c \<in> set w. c \<noteq> CHR '':'' \<and> \<not> is_space c)"

lemma clean_show_nat [simp]: "clean (show_nat n)"
  using show_nat_digits digit_not_special unfolding clean_def by blast

lemma clean_show_int [simp]: "clean (show_int i)"
proof -
  have "\<not> is_space (CHR ''-'')"
    by (simp add: is_space_def)
  then show ?thesis
    using clean_show_nat by (auto simp: show_int_def clean_def)
qed

lemma atoi_show_int: "- (2 ^ 31) \<le> i \<Longrightarrow> i < 2 ^ 31 \<Longrightarrow> atoi (show_int i) = Inr i"
proof (cases "i < 0")
  case True
  assume "- (2 ^ 31) \<le> i"
  have "\<not> is_space (CHR ''-'')"
    by (simp add: is_space_def)
  then show ?thesis
    using True \<open>- (2 ^ 31) \<le> i\<close> by (simp add: show_int_def atoi_def digits_value_show_nat)
next
  case False
  assume "i < 2 ^ 31"
  then show ?thesis
    using False by (simp add: show_int_def nat_less_iff del: nat_numeral)
qed

lemma of_int_unat [simp]: "of_int (int (unat (w :: u32))) = w"
  by simp

lemma delimited_space_free:
  "(\<forall>w \<in> set ws. clean w) \<Longrightarrow> c \<in> set (delimited ws) \<Longrightarrow> \<not> is_space c"
proof (induction ws rule: delimited.induct)
  case 1
  then show ?case by simp
next
  case (2 w)
  then show ?case by (simp add: clean_def)
next
  case (3 w v ws)
  have "\<not> is_space kCandidateDelim"
    by (simp add: kCandidateDelim_def is_space_def)
  then show ?case
    using 3 by (auto simp: clean_def)
qed

text \<open>What \<open>talk_base::split\<close> promises: the pieces between the delimiters, empty ones included.\<close>

definition split_law :: "jingle \<Rightarrow> bool" where
  "split_law jg \<longleftrightarrow> (\<forall>c w. c \<notin> set w \<longrightarrow> split_at jg w c = [w]) \<and>
     (\<forall>c w s. c \<notin> set w \<longrightarrow> split_at jg (w @ c # s) c = w # split_at jg s c)"

lemma split_law_jingle0: "split_law jingle0"
  by (simp add: split_law_def jingle0_def split0_word split0_append)

lemma split_delimited:
  assumes "split_law jg"
  shows "ws \<noteq> [] \<Longrightarrow> (\<forall>w \<in> set ws. kCandidateDelim \<notin> set w) \<Longrightarrow> split_at jg (delimited ws) kCandidateDelim = ws"
  using assms by (induction ws rule: delimited.induct) (simp_all add: split_law_def)

section \<open>Printing and parsing together\<close>

text \<open>
  A candidate whose fields the format can carry: no field contains a colon or white space, and the
  numbers fit an \<open>int\<close>.
\<close>

definition printable :: "jingle \<Rightarrow> candidate \<Rightarrow> bool" where
  "printable jg c \<longleftrightarrow> clean (c_id c) \<and> clean (c_protocol c) \<and> clean (ip_to_string jg (c_address c)) \<and>
     clean (c_username c) \<and> clean (c_password c) \<and> clean (c_type c) \<and> clean (interface_name c) \<and>
     clean (c_foundation c) \<and> - (2 ^ 31) \<le> c_component c \<and> c_component c < 2 ^ 31 \<and>
     unat (c_priority c) < 2 ^ 31 \<and> unat (c_generation c) < 2 ^ 31"

text \<open>The candidate the peer should get: the network by the name of the interface alone.\<close>

definition received :: "jingle \<Rightarrow> candidate \<Rightarrow> candidate" where
  "received jg c = c\<lparr>c_network_name := interface_name c,
     c_address := addr_make jg (ip_to_string jg (c_address c)) (int (unat (sa_port (c_address c))))\<rparr>"

lemma clean_no_delim: "clean w \<Longrightarrow> kCandidateDelim \<notin> set w"
  by (auto simp: clean_def kCandidateDelim_def)

lemma printable_fields: "printable jg c \<Longrightarrow> \<forall>w \<in> set (candidate_fields jg c). clean w"
  by (simp add: printable_def candidate_fields_def)

lemma parse_candidate_string:
  assumes "split_law jg" and "printable jg c"
  shows "parse_candidate jg (candidate_string jg c) = Inr [received jg c]"
proof -
  have s: "split_at jg (candidate_string jg c) kCandidateDelim = candidate_fields jg c"
    using split_delimited [OF assms(1), of "candidate_fields jg c"] printable_fields [OF assms(2)]
    by (auto simp: candidate_string_def candidate_fields_def clean_no_delim)
  have p: "unat (sa_port (c_address c)) < 2 ^ 31"
    by (rule order.strict_trans [OF unsigned_less]) simp
  have a: "atoi (show_int (c_component c)) = Inr (c_component c)"
    "atoi (show_nat (unat (sa_port (c_address c)))) = Inr (int (unat (sa_port (c_address c))))"
    "atoi (show_nat (unat (c_priority c))) = Inr (int (unat (c_priority c)))"
    "atoi (show_nat (unat (c_generation c))) = Inr (int (unat (c_generation c)))"
    using assms(2) p atoi_show_int atoi_show_nat unfolding printable_def by blast+
  show ?thesis
    unfolding parse_candidate_def s Let_def
    by (simp add: candidate_fields_def a received_def)
qed

lemma candidate_string_word:
  assumes "printable jg c"
  shows "candidate_string jg c \<noteq> []" and "\<forall>x \<in> set (candidate_string jg c). \<not> is_space x"
  using delimited_space_free [OF printable_fields [OF assms]]
  by (simp_all add: candidate_string_def candidate_fields_def)

text \<open>The words after the fingerprint, each behind a space.\<close>

lemma parse_candidates_words:
  assumes "split_law jg"
  shows "\<forall>c \<in> set cs. printable jg c \<Longrightarrow>
    parse_candidates jg (concat (map (\<lambda>c. CHR '' '' # candidate_string jg c) cs)) acc =
      Inr (acc @ map (received jg) cs)"
proof (induction cs arbitrary: acc)
  case Nil
  have "split_at jg [] kCandidateDelim = [[]]"
    using assms by (simp add: split_law_def)
  then show ?case
    by (subst parse_candidates.simps) (simp add: iss_extract_def parse_candidate_def)
next
  case (Cons c cs)
  let ?w = "candidate_string jg c" and ?t = "concat (map (\<lambda>c. CHR '' '' # candidate_string jg c) cs)"
  have c: "printable jg c" using Cons.prems by simp
  have sp: "is_space (CHR '' '')"
    by (simp add: is_space_def)
  then have "?t = [] \<or> is_space (hd ?t)"
    by (cases cs) simp_all
  then have "iss_extract ([CHR '' ''] @ ?w @ ?t) = (?w, ?t, True)"
    using candidate_string_word [OF c] sp by (intro iss_extract_word) simp_all
  then have "parse_candidates jg (concat (map (\<lambda>c. CHR '' '' # candidate_string jg c) (c # cs))) acc =
      parse_candidates jg ?t (acc @ [received jg c])"
    by (subst parse_candidates.simps) (simp add: parse_candidate_string [OF assms c])
  then show ?case
    using Cons by simp
qed

section \<open>The handlers on a registered link\<close>

lemma add_candidates:
  "fold (add_candidate jg kTapName) cs l =
     l \<union> candidate_string jg ` {c \<in> set cs. c_network_name c \<noteq> kTapName}"
  by (induction cs arbitrary: l) (auto simp: add_candidate_def)

lemma tables_ok_same_peer:
  assumes "tables_ok U S T L" and "U uid = Some ps" and "ps_uid ps' = ps_uid ps"
    and "ps_transport ps' = ps_transport ps"
  shows "tables_ok (U(uid \<mapsto> ps')) S T L"
proof -
  have U: "(\<exists>v qs. (U(uid \<mapsto> ps')) v = Some qs \<and> ps_transport qs = t \<and> P v)"
    if "U v = Some qs" "ps_transport qs = t" "P v" for v qs t P
    using that assms(2,4) by (cases "v = uid") auto
  show ?thesis
    unfolding tables_ok_def
  proof (intro conjI allI impI ballI)
    fix v qs
    assume "(U(uid \<mapsto> ps')) v = Some qs"
    then obtain rs where "U v = Some rs" "ps_uid qs = ps_uid rs" "ps_transport qs = ps_transport rs"
      using assms(2-4) by (auto split: if_splits)
    then show "ps_uid qs = v" "ps_transport qs \<in> L" and "T (ps_transport qs) = Some v"
      using tables_okD(1-3) [OF assms(1)] by auto
  next
    fix t v
    assume "T t = Some v"
    then show "\<exists>qs. (U(uid \<mapsto> ps')) v = Some qs \<and> ps_transport qs = t"
      using tables_okD(4) [OF assms(1)] assms(2,4) by fastforce
  next
    fix sub t
    assume "S sub = Some t"
    then obtain v qs where "U v = Some qs" "ps_transport qs = t" "sub_uid v = sub"
      using tables_okD(5) [OF assms(1)] by blast
    then show "\<exists>v qs. (U(uid \<mapsto> ps')) v = Some qs \<and> ps_transport qs = t \<and> sub_uid v = sub"
      by (rule U)
  next
    fix t
    assume "t \<in> L"
    then obtain v qs where "U v = Some qs" "ps_transport qs = t"
      using tables_okD(6) [OF assms(1)] by blast
    then show "\<exists>v qs. (U(uid \<mapsto> ps')) v = Some qs \<and> ps_transport qs = t"
      using U [of v qs t "\<lambda>_. True"] by blast
  qed
qed

lemma links_ok_same_peer:
  "links_ok m \<Longrightarrow> uid_map m uid = Some ps \<Longrightarrow> ps_uid ps' = ps_uid ps \<Longrightarrow>
     ps_transport ps' = ps_transport ps \<Longrightarrow> links_ok (m\<lparr>uid_map := (uid_map m)(uid \<mapsto> ps')\<rparr>)"
  unfolding links_ok_def using tables_ok_same_peer by simp

lemma OnCandidatesReady_registered:
  assumes "transport_map m t = Some uid" and "uid_map m uid = Some ps"
  shows "OnCandidatesReady jg kTapName t cs m = Inr (m\<lparr>uid_map := (uid_map m)(uid \<mapsto>
    ps\<lparr>ps_candidate_list := ps_candidate_list ps \<union>
      candidate_string jg ` {c \<in> set cs. c_network_name c \<noteq> kTapName}\<rparr>)\<rparr>)"
  using assms by (simp add: OnCandidatesReady_def add_candidates)

lemma OnCandidatesAllocationDone_registered:
  assumes "transport_map m t = Some uid" and "uid_map m uid = Some ps"
  shows "OnCandidatesAllocationDone send t (m, s) =
    ebind (send (ps_overlay_id ps) uid (candidates_data (fingerprint m) (ps_candidate_list ps)) kConResp s)
      (\<lambda>s. Inr ((m, s), []))"
  using assms by (simp add: OnCandidatesAllocationDone_def)

lemma links_ok_OnCandidatesReady:
  assumes "links_ok m" and "t \<in> live m" and "OnCandidatesReady jg kTapName t cs m = Inr m'"
  shows "links_ok m'"
proof -
  obtain uid ps where "transport_map m t = Some uid" "uid_map m uid = Some ps"
    using links_ok_registered [OF assms(1,2)] by blast
  then show ?thesis
    using assms(1,3) OnCandidatesReady_registered [of m t uid ps jg kTapName cs]
      links_ok_same_peer [of m uid ps] by (auto simp del: fun_upd_apply)
qed

lemma CreateConnections_cases:
  assumes "CreateConnections jg uid cas m = Inr (b, m', es)"
  obtains (refused) "\<not> b" "m' = m" "es = []"
  | (connected) ps cs where "b" "uid_map m uid = Some ps" "ps_candidates ps = []"
      "parse_candidates jg cas [] = Inr cs" "ps_transport ps \<in> live m"
      "m' = m\<lparr>uid_map := (uid_map m)(uid \<mapsto> ps\<lparr>ps_candidates := cs\<rparr>)\<rparr>"
      "es = [TransportCall (ps_transport ps) (RemoteCandidates cs)]"
proof (cases "uid_map m uid")
  case None
  then show ?thesis
    using assms refused by (simp add: CreateConnections_def)
next
  case (Some ps)
  show ?thesis
  proof (cases "ps_candidates ps = []")
    case True
    then obtain cs where cs: "parse_candidates jg cas [] = Inr cs"
      using assms Some by (auto simp: CreateConnections_def tincan_simps)
    then show ?thesis
      using assms Some True by (intro connected [of ps cs]) (auto simp: CreateConnections_def split: if_splits)
  next
    case False
    then show ?thesis
      using assms Some refused by (simp add: CreateConnections_def)
  qed
qed

lemma links_ok_CreateConnections:
  assumes "links_ok m" and "CreateConnections jg uid cas m = Inr (b, m', es)"
  shows "links_ok m'"
  using assms(2)
proof (cases rule: CreateConnections_cases)
  case refused
  then show ?thesis using assms(1) by simp
next
  case (connected ps cs)
  then show ?thesis
    using assms(1) links_ok_same_peer [of m uid ps] by simp
qed

lemma split_length:
  assumes "split_law jg"
  shows "length (split_at jg s c) = Suc (count_list s c)"
proof (induction s rule: length_induct)
  case (1 s)
  show ?case
  proof (cases "c \<in> set s")
    case True
    then obtain w t where s: "s = w @ c # t" and w: "c \<notin> set w"
      by (meson split_list_first)
    then show ?thesis
      using 1 assms by (simp add: split_law_def count_list_append)
  next
    case False
    then show ?thesis
      using assms by (simp add: split_law_def)
  qed
qed

lemma count_delimited: "length ws \<le> Suc (count_list (delimited ws) kCandidateDelim)"
  by (induction ws rule: delimited.induct) (simp_all add: count_list_append)

lemma candidate_string_inject:
  assumes "split_law jg" and "printable jg c" and "printable jg d"
    and "candidate_string jg c = candidate_string jg d"
  shows "received jg c = received jg d"
  using parse_candidate_string [OF assms(1,2)] parse_candidate_string [OF assms(1,3)] assms(4) by simp

lemma parse_candidates_data:
  assumes "split_law jg" and "finite C" and "\<forall>c \<in> C. printable jg c"
  shows "\<exists>l. parse_candidates jg (candidates_data '''' (candidate_string jg ` C)) [] = Inr l \<and>
    set l = received jg ` C \<and> length l \<le> card C"
proof -
  let ?f = "candidate_string jg" and ?S = "sorted_list_of_set (candidate_string jg ` C)"
  define cs where "cs = map (inv_into C ?f) ?S"
  have S: "set ?S = ?f ` C"
    using assms(2) by simp
  have map: "map ?f cs = ?S"
    unfolding cs_def using S by (auto intro!: map_idI simp: f_inv_into_f)
  have sub: "set cs \<subseteq> C"
    using S by (auto simp: cs_def intro: inv_into_into)
  then have p: "\<forall>c \<in> set cs. printable jg c"
    using assms(3) by blast
  have "candidates_data '''' (?f ` C) = concat (map (\<lambda>c. CHR '' '' # ?f c) cs)"
    by (simp add: candidates_data_def map [symmetric] comp_def)
  then have "parse_candidates jg (candidates_data '''' (?f ` C)) [] = Inr (map (received jg) cs)"
    using parse_candidates_words [OF assms(1) p, of "[]"] by simp
  moreover have "received jg c \<in> received jg ` set cs" if c: "c \<in> C" for c
  proof -
    have "?f c \<in> set (map ?f cs)"
      using c S map by simp
    then obtain d where d: "d \<in> set cs" "?f d = ?f c"
      by auto
    then have "received jg c = received jg d"
      using candidate_string_inject [OF assms(1)] c sub assms(3) by (metis subset_iff)
    with d(1) show ?thesis by blast
  qed
  moreover have "length cs \<le> card C"
    using card_image_le [OF assms(2), of ?f] by (simp add: cs_def)
  ultimately show ?thesis
    using sub by (intro exI [of _ "map (received jg) cs"]) auto
qed

section \<open>Properties\<close>

definition demo_candidate :: candidate where
  "demo_candidate = \<lparr>c_id = ''a'', c_component = 1, c_protocol = ''udp'',
     c_address = \<lparr>sa_host = ''10.0.0.1'', sa_port = 9\<rparr>, c_priority = 7, c_username = ''ufrag'',
     c_password = ''pwd'', c_type = ''local'', c_network_name = ''eth'', c_generation = 0,
     c_foundation = ''f''\<rparr>"

lemma clean_simps [simp]:
  "clean []" "clean (c # w) \<longleftrightarrow> c \<noteq> CHR '':'' \<and> \<not> is_space c \<and> clean w"
  by (auto simp: clean_def)

lemma interface_demo [simp]: "interface_name demo_candidate = ''eth''"
  by (simp add: interface_name_def demo_candidate_def str_find_def npos_def take_Cons' unsigned_minus_1_eq_mask mask_eq_exp_minus_1)

lemma printable_demo: "printable jingle0 demo_candidate"
  by (simp add: printable_def is_space_def) (simp add: demo_candidate_def jingle0_def is_space_def)



lemma demo_linked_simps [simp]:
  "transport_map demo_linked (TRef 1) = Some (demo_uid (CHR ''1''))"
  "uid_map demo_linked (demo_uid (CHR ''1'')) = Some demo_peer"
  "ps_candidate_list demo_peer = {}" "ps_candidates demo_peer = []" "ps_transport demo_peer = TRef 1"
  by (simp_all add: demo_linked_def demo_peer_def)



text \<open>
  The candidates of a link go to the signalling service of the overlay the link was created
  for: through the controller for overlay 0, over XMPP for overlay 1. \<open>CreateTransport\<close> takes every
  number for the overlay, and for any other one the end of the candidate allocation calls through
  a null pointer.
\<close>

theorem candidates_dispatched:
  assumes "CreateTransport jg now t ch uid a m = (True, m', es)"
  shows "OnCandidatesAllocationDone (PeerSignalSender_SendToPeer call) t (m', (main_services, s)) =
    (if la_overlay_id a = 0
     then ebind (call SvcController 0 uid (fingerprint m) kConResp s) (\<lambda>s. Inr ((m', (main_services, s)), []))
     else if la_overlay_id a = 1
     then ebind (call SvcXmpp 1 uid (fingerprint m) kConResp s) (\<lambda>s. Inr ((m', (main_services, s)), []))
     else Inl NullDeref)"
  using assms
proof (cases rule: CreateTransport_cases)
  case refused
  then show ?thesis by simp
next
  case created
  then have u: "transport_map m' t = Some uid" "uid_map m' uid = Some (created_peer jg now t ch uid a m)"
    and f: "fingerprint m' = fingerprint m"
    by simp_all
  have d: "candidates_data f {} = f" for f
    by (simp add: candidates_data_def)
  show ?thesis
    unfolding OnCandidatesAllocationDone_registered [OF u]
    by (simp add: f d dispatch_registered dispatch_unregistered ebind_assoc)
qed

theorem candidates_dispatched_witness:
  "\<exists>m' es. CreateTransport jingle0 0 (TRef 1) 2 (demo_uid (CHR ''1'')) (demo_args\<lparr>la_overlay_id := 7\<rparr>)
      demo_mgr = (True, m', es) \<and>
    OnCandidatesAllocationDone (PeerSignalSender_SendToPeer (\<lambda>svc ov uid data type s. Inr (s, [])))
      (TRef 1) (m', (main_services, ())) = Inl NullDeref"
proof -
  obtain m' es where c: "CreateTransport jingle0 0 (TRef 1) 2 (demo_uid (CHR ''1''))
      (demo_args\<lparr>la_overlay_id := 7\<rparr>) demo_mgr = (True, m', es)"
    using CreateTransport_new [of demo_mgr "demo_uid (CHR ''1'')" jingle0 0 "TRef 1" 2
        "demo_args\<lparr>la_overlay_id := 7\<rparr>"] by auto
  from candidates_dispatched [OF c, of "\<lambda>svc ov uid data type s. Inr (s, [])" "()"] c
  show ?thesis by simp
qed

text \<open>
  The peer's candidates are taken once per link: after a \<open>CreateConnections\<close> that handed at
  least one candidate to the transport, every further one for that link reports failure and
  changes nothing, whatever it is given; when no word of the string had twelve fields, the transport
  got an empty list and a later call may still connect.
\<close>

theorem connections_once:
  assumes "CreateConnections jg uid cas m = Inr (True, m', es)"
  shows "\<exists>t l. es = [TransportCall t (RemoteCandidates l)] \<and>
    (if l = [] then CreateConnections jg uid cas' m' = CreateConnections jg uid cas' m
     else CreateConnections jg uid cas' m' = Inr (False, m', []))"
  using assms
proof (cases rule: CreateConnections_cases)
  case refused
  then show ?thesis by simp
next
  case (connected ps cs)
  show ?thesis
  proof (cases "cs = []")
    case True
    then have "ps\<lparr>ps_candidates := cs\<rparr> = ps"
      using connected(3) by simp
    then have "m' = m"
      using connected(2,6) by (simp add: fun_upd_idem)
    with True connected(7) show ?thesis by simp
  next
    case False
    then have "CreateConnections jg uid cas' m' = Inr (False, m', [])"
      unfolding connected(6) by (simp add: CreateConnections_def)
    with False connected(7) show ?thesis by simp
  qed
qed

theorem connections_once_witness:
  "\<exists>m'. CreateConnections jingle0 (demo_uid (CHR ''1'')) (CHR '' '' # candidate_string jingle0 demo_candidate)
      demo_linked = Inr (True, m', [TransportCall (TRef 1) (RemoteCandidates [received jingle0 demo_candidate])]) \<and>
    CreateConnections jingle0 (demo_uid (CHR ''1'')) ''again'' m' = Inr (False, m', [])"
proof -
  have "TRef 1 \<in> live demo_linked"
    by (simp add: demo_linked_def)
  then obtain m' where c: "CreateConnections jingle0 (demo_uid (CHR ''1''))
      (CHR '' '' # candidate_string jingle0 demo_candidate) demo_linked =
      Inr (True, m', [TransportCall (TRef 1) (RemoteCandidates [received jingle0 demo_candidate])])"
    using parse_candidates_words [OF split_law_jingle0, of "[demo_candidate]" "[]"] printable_demo
    by (simp add: CreateConnections_def)
  from connections_once [OF c, of "''again''"] c show ?thesis by auto
qed

end
