(* ===== verification/Peer_Status.thy ===== *)
theory Peer_Status
  imports Link_Tables
begin

text \<open>
  The state report: what the connection manager says of each peer to the controller
  (\<open>StateToJson\<close>, \<open>GetChannelStats_w\<close> and \<open>GetState\<close> of \<open>src/tincanconnectionmanager.cc\<close>, in a
  build for Linux or Android).
\<close>

section \<open>Statistics of a channel\<close>

text \<open>\<open>cricket::ConnectionInfo\<close>: the counters are of type \<open>size_t\<close>.\<close>

record conn_info =
  ci_local_addr :: sockaddr
  ci_local_type :: string
  ci_rem_addr :: sockaddr
  ci_rem_type :: string
  ci_best :: bool
  ci_writable :: bool
  ci_readable :: bool
  ci_timeout :: bool
  ci_new :: bool
  ci_rtt :: u64
  ci_sent_total :: u64
  ci_sent_second :: u64
  ci_recv_total :: u64
  ci_recv_second :: u64

text \<open>A conversion to \<open>uint\<close> keeps the lower 32 bits.\<close>

definition json_uint :: "u64 \<Rightarrow> json" where
  "json_uint w = JInt (uint (ucast w :: u32))"

text \<open>The assignments \<open>object[key] = value\<close>, in order.\<close>

definition jset_all :: "(string \<times> json) list \<Rightarrow> json \<Rightarrow> json" where
  "jset_all kvs j = fold (\<lambda>(k, v). jset k v) kvs j"

definition stat_json :: "jingle \<Rightarrow> conn_info \<Rightarrow> json" where
  "stat_json jg i = jset_all
     [(''local_addr'', JStr (addr_to_string jg (ci_local_addr i))),
      (''rem_addr'', JStr (addr_to_string jg (ci_rem_addr i))),
      (''local_type'', JStr (ci_local_type i)), (''rem_type'', JStr (ci_rem_type i)),
      (''best_conn'', JBool (ci_best i)), (''writable'', JBool (ci_writable i)),
      (''readable'', JBool (ci_readable i)), (''timeout'', JBool (ci_timeout i)),
      (''new_conn'', JBool (ci_new i)), (''rtt'', json_uint (ci_rtt i)),
      (''sent_total_bytes'', json_uint (ci_sent_total i)),
      (''sent_bytes_second'', json_uint (ci_sent_second i)),
      (''recv_total_bytes'', json_uint (ci_recv_total i)),
      (''recv_bytes_second'', json_uint (ci_recv_second i))] (JObj [])"

definition GetChannelStats_w ::
  "tstate \<Rightarrow> (cref \<Rightarrow> conn_info list) \<Rightarrow> string \<Rightarrow> mgr \<Rightarrow> conn_info list result" where
  "GetChannelStats_w ts stats uid m =
     (case uid_map m uid of
        None \<Rightarrow> Inl NullDeref
      | Some ps \<Rightarrow>
          if ps_transport ps \<notin> live m then Inl UseAfterFree
          else (case tp_channel ts (ps_transport ps) of
                  None \<Rightarrow> Inl NullDeref
                | Some channel \<Rightarrow> Inr (stats channel)))"

section \<open>One peer\<close>

text \<open>
  The time in seconds since an earlier reading of the millisecond clock: the difference wraps around
  at 32 bits.
\<close>

definition elapsed :: "u32 \<Rightarrow> u32 \<Rightarrow> json" where
  "elapsed now before = JInt (uint ((now - before) div 1000))"

text \<open>\<open>now\<close> and \<open>now'\<close> are the two readings of the clock.\<close>

definition StateToJson ::
  "jingle \<Rightarrow> tstate \<Rightarrow> (cref \<Rightarrow> conn_info list) \<Rightarrow> u32 \<times> u32 \<Rightarrow> string \<Rightarrow> u32 \<Rightarrow> bool \<Rightarrow> mgr \<Rightarrow> json result"
where
  "StateToJson jg ts stats clock uid xmpp_time get_stats m =
     (let peer = jset_all [(''uid'', JStr uid), (''status'', JStr ''offline''),
            (''xmpp_time'', elapsed (fst clock) xmpp_time)] (JObj []);
          peer = (case ip_map m uid of
                    None \<Rightarrow> peer
                  | Some ips \<Rightarrow> jset_all [(''ip4'', JStr (pi_ip4 ips)), (''ip6'', JStr (pi_ip6 ips))] peer)
      in case uid_map m uid of
           None \<Rightarrow> Inr peer
         | Some ps \<Rightarrow>
             (let peer = jset_all [(''fpr'', JStr (ps_fingerprint ps)),
                    (''last_time'', elapsed (snd clock) (ps_last_time ps))] peer
              in if ps_transport ps \<notin> live m then Inl UseAfterFree
                 else if tp_readable ts (ps_transport ps) \<and> tp_writable ts (ps_transport ps)
                 then
                   (let peer = jset_all [(''status'', JStr ''online''),
                          (''security'', JStr (ps_connection_security ps))] peer
                    in if get_stats
                       then sbind (GetChannelStats_w ts stats uid m) (\<lambda>infos.
                         Inr (jset ''stats'' (JArr (map (stat_json jg) infos)) peer))
                       else Inr peer)
                 else Inr peer))"

text \<open>The report on all friends; \<open>clocks\<close> gives the readings of the clock made for each.\<close>

fun GetState_loop ::
  "(string \<Rightarrow> u32 \<Rightarrow> json result) \<Rightarrow> (string, u32) omap \<Rightarrow> json \<Rightarrow> json result" where
  "GetState_loop state [] peers = Inr peers"
| "GetState_loop state ((uid, xmpp_time) # friends) peers =
     sbind (state uid xmpp_time) (\<lambda>j. GetState_loop state friends (jset uid j peers))"

definition GetState ::
  "jingle \<Rightarrow> tstate \<Rightarrow> (cref \<Rightarrow> conn_info list) \<Rightarrow> (string \<Rightarrow> u32 \<times> u32) \<Rightarrow> (string, u32) omap \<Rightarrow> bool \<Rightarrow>
   mgr \<Rightarrow> json result"
where
  "GetState jg ts stats clocks friends get_stats m =
     GetState_loop (\<lambda>uid xmpp_time. StateToJson jg ts stats (clocks uid) uid xmpp_time get_stats m)
       friends (JObj [])"

section \<open>Lemmas\<close>

lemma jset_all_Nil [simp]: "jset_all [] j = j"
  by (simp add: jset_all_def)

lemma jset_all_Cons [simp]: "jset_all ((k, v) # kvs) j = jset_all kvs (jset k v j)"
  by (simp add: jset_all_def)

lemma elapsed_exact:
  assumes "e < 2 ^ 32"
  shows "elapsed (of_nat (before + e)) (of_nat before) = JInt (int (e div 1000))"
proof -
  have d: "of_nat (before + e) - of_nat before = (of_nat e :: u32)"
    by simp
  have "unat (of_nat e :: u32) = e"
    using assms by (simp add: unat_of_nat take_bit_nat_eq_self)
  then have "unat ((of_nat e :: u32) div 1000) = e div 1000"
    by (simp add: unat_div_distrib)
  then show ?thesis
    unfolding elapsed_def d by (metis uint_nat)
qed

lemma GetState_loop_members:
  assumes "\<forall>(uid, x) \<in> set friends. \<exists>j. state uid x = Inr j" and "omap_ok friends"
  shows "\<exists>r. GetState_loop state friends peers = Inr r \<and>
    (\<forall>uid. jget r uid = (case omap_get friends uid of None \<Rightarrow> jget peers uid
       | Some x \<Rightarrow> (case state uid x of Inr j \<Rightarrow> Some j | Inl e \<Rightarrow> None)))"
  using assms
proof (induction friends arbitrary: peers)
  case Nil
  then show ?case by simp
next
  case (Cons f friends)
  obtain uid x where f: "f = (uid, x)" by (cases f)
  obtain j where j: "state uid x = Inr j"
    using Cons.prems(1) f by auto
  have ok: "omap_ok friends"
    using Cons.prems(2) by (cases f) (simp add: omap_ok_def)
  have fresh: "omap_get friends uid = None"
    using omap_ok_distinct [OF Cons.prems(2)] f by (auto simp: map_of_eq_None_iff)
  have "\<forall>(u, y) \<in> set friends. \<exists>i. state u y = Inr i"
    using Cons.prems(1) by simp
  from Cons.IH [OF this ok, of "jset uid j peers"] obtain r
    where r: "GetState_loop state friends (jset uid j peers) = Inr r"
      and m: "jget r v = (case omap_get friends v of None \<Rightarrow> jget (jset uid j peers) v
         | Some x \<Rightarrow> (case state v x of Inr j \<Rightarrow> Some j | Inl e \<Rightarrow> None))" for v
    by blast
  have "jget r v = (case omap_get (f # friends) v of None \<Rightarrow> jget peers v
         | Some x \<Rightarrow> (case state v x of Inr j \<Rightarrow> Some j | Inl e \<Rightarrow> None))" for v
    using m [of v] f j fresh by (cases "v = uid") (auto split: option.splits)
  then show ?case
    using f j r by auto
qed

text \<open>When the link is up, and what the report has for a peer.\<close>

definition link_up :: "tstate \<Rightarrow> mgr \<Rightarrow> string \<Rightarrow> bool" where
  "link_up ts m uid \<longleftrightarrow> (case uid_map m uid of None \<Rightarrow> False
     | Some ps \<Rightarrow> tp_readable ts (ps_transport ps) \<and> tp_writable ts (ps_transport ps))"

definition channels_exist :: "tstate \<Rightarrow> mgr \<Rightarrow> bool" where
  "channels_exist ts m \<longleftrightarrow> (\<forall>t \<in> live m. tp_channel ts t \<noteq> None)"

lemma GetChannelStats_live:
  assumes "links_ok m" and "channels_exist ts m" and "uid_map m uid = Some ps"
  shows "\<exists>ch. tp_channel ts (ps_transport ps) = Some ch \<and> GetChannelStats_w ts stats uid m = Inr (stats ch)"
proof -
  have "ps_transport ps \<in> live m"
    using assms(1,3) tables_okD(2) unfolding links_ok_def by blast
  moreover from this obtain ch where "tp_channel ts (ps_transport ps) = Some ch"
    using assms(2) by (auto simp: channels_exist_def)
  ultimately show ?thesis
    using assms(3) by (simp add: GetChannelStats_w_def)
qed

lemma StateToJson_members:
  assumes "links_ok m" and "channels_exist ts m"
  shows "\<exists>peer. StateToJson jg ts stats clock uid x get_stats m = Inr peer \<and>
    jget peer ''uid'' = Some (JStr uid) \<and>
    jget peer ''status'' = Some (JStr (if link_up ts m uid then ''online'' else ''offline'')) \<and>
    jget peer ''xmpp_time'' = Some (elapsed (fst clock) x) \<and>
    jget peer ''ip4'' = map_option (\<lambda>i. JStr (pi_ip4 i)) (ip_map m uid) \<and>
    jget peer ''ip6'' = map_option (\<lambda>i. JStr (pi_ip6 i)) (ip_map m uid) \<and>
    jget peer ''fpr'' = map_option (\<lambda>p. JStr (ps_fingerprint p)) (uid_map m uid) \<and>
    jget peer ''last_time'' = map_option (\<lambda>p. elapsed (snd clock) (ps_last_time p)) (uid_map m uid) \<and>
    jget peer ''security'' = (if link_up ts m uid
      then map_option (\<lambda>p. JStr (ps_connection_security p)) (uid_map m uid) else None) \<and>
    jget peer ''stats'' = (if link_up ts m uid \<and> get_stats
      then Some (JArr (map (stat_json jg) (stats (the (tp_channel ts (ps_transport (the (uid_map m uid)))))))) else None)"
proof (cases "uid_map m uid")
  case None
  then show ?thesis
    by (cases "ip_map m uid") (simp_all add: StateToJson_def link_up_def del: jset.simps)
next
  case (Some ps)
  obtain ch where ch: "tp_channel ts (ps_transport ps) = Some ch"
    "GetChannelStats_w ts stats uid m = Inr (stats ch)"
    using GetChannelStats_live [OF assms Some] by blast
  have "ps_transport ps \<in> live m"
    using assms(1) Some tables_okD(2) unfolding links_ok_def by blast
  then show ?thesis
    using Some ch
    by (cases "ip_map m uid"; cases get_stats; cases "tp_readable ts (ps_transport ps)";
        cases "tp_writable ts (ps_transport ps)")
      (simp_all add: StateToJson_def link_up_def Let_def del: jset.simps)
qed

section \<open>Properties\<close>



text \<open>
  Claim C33. The times of the report are whole seconds since the last presence and since the link was
  created, right across a wrap-around of the 32-bit millisecond clock: after \<open>e\<close> milliseconds the report has
  \<open>e div 1000\<close>, as long as \<open>e\<close> is below \<open>2 ^ 32\<close> (about 49.7 days), and \<open>e\<close> reduced modulo that
  beyond.
\<close>

theorem state_times:
  assumes "links_ok m" and "channels_exist ts m" and "uid_map m uid = Some ps"
    and "xmpp_time = of_nat seen" and "ps_last_time ps = of_nat created"
  shows "\<exists>peer. StateToJson jg ts stats (of_nat (seen + e), of_nat (created + e')) uid xmpp_time get_stats m
      = Inr peer \<and>
    jget peer ''xmpp_time'' = Some (JInt (int (e mod 2 ^ 32 div 1000))) \<and>
    jget peer ''last_time'' = Some (JInt (int (e' mod 2 ^ 32 div 1000)))"
proof -
  have wrap: "elapsed (of_nat (b + n)) (of_nat b) = JInt (int (n mod 2 ^ 32 div 1000))" for b n
  proof -
    have "(of_nat n :: u32) = of_nat (n mod 2 ^ 32)"
      by (simp add: word_unat_eq_iff unat_of_nat take_bit_eq_mod)
    then have "(of_nat (b + n) :: u32) = of_nat (b + n mod 2 ^ 32)"
      by (simp only: of_nat_add)
    then show ?thesis
      using elapsed_exact [of "n mod 2 ^ 32" b] by simp
  qed
  show ?thesis
    using StateToJson_members [OF assms(1,2), of jg stats "(of_nat (seen + e), of_nat (created + e'))" uid
        xmpp_time get_stats] assms(3-5) wrap by auto
qed

theorem state_times_witness:
  "\<exists>peer. StateToJson jingle0 \<lparr>tp_readable = (\<lambda>_. True), tp_writable = (\<lambda>_. True),
      tp_was_writable = (\<lambda>_. True), tp_channel = (\<lambda>_. Some 2), ch_ports = (\<lambda>_. [])\<rparr> (\<lambda>_. [])
      (of_nat (4294967295 + 3001), of_nat (0 + 2500)) (demo_uid (CHR ''1'')) 4294967295 True demo_linked = Inr peer \<and>
    jget peer ''xmpp_time'' = Some (JInt 3) \<and> jget peer ''last_time'' = Some (JInt 2)"
proof -
  let ?ts = "\<lparr>tp_readable = (\<lambda>_. True), tp_writable = (\<lambda>_. True), tp_was_writable = (\<lambda>_. True),
      tp_channel = (\<lambda>_. Some 2), ch_ports = (\<lambda>_. [])\<rparr>"
  have 1: "channels_exist ?ts demo_linked"
    and 2: "uid_map demo_linked (demo_uid (CHR ''1'')) = Some demo_peer"
    and 3: "(4294967295 :: u32) = of_nat 4294967295" "ps_last_time demo_peer = of_nat 0"
    by (simp_all add: channels_exist_def demo_linked_def demo_peer_def)
  from state_times [OF demo_linked_ok 1 2 3, of jingle0 "\<lambda>_. []" 3001 2500 True]
  show ?thesis by auto
qed

text \<open>
  The counters of the statistics are cut to 32 bits: the report of an online peer has one
  element per connection of its channel, in order, with the addresses of both ends, and a counter
  of \<open>n\<close> bytes is reported as \<open>n\<close> modulo \<open>2 ^ 32\<close>.
\<close>

theorem state_stats:
  assumes "links_ok m" and "channels_exist ts m" and "link_up ts m uid"
  shows "\<exists>peer ch l. StateToJson jg ts stats clock uid xmpp_time True m = Inr peer \<and>
    tp_channel ts (ps_transport (the (uid_map m uid))) = Some ch \<and>
    jget peer ''stats'' = Some (JArr l) \<and> length l = length (stats ch) \<and>
    (\<forall>i < length l.
       jget (l ! i) ''local_addr'' = Some (JStr (addr_to_string jg (ci_local_addr (stats ch ! i)))) \<and>
       jget (l ! i) ''rem_addr'' = Some (JStr (addr_to_string jg (ci_rem_addr (stats ch ! i)))) \<and>
       jget (l ! i) ''sent_total_bytes'' = Some (JInt (int (unat (ci_sent_total (stats ch ! i)) mod 2 ^ 32))) \<and>
       jget (l ! i) ''recv_total_bytes'' = Some (JInt (int (unat (ci_recv_total (stats ch ! i)) mod 2 ^ 32))))"
proof -
  obtain ps where ps: "uid_map m uid = Some ps"
    using assms(3) by (auto simp: link_up_def split: option.splits)
  obtain ch where ch: "tp_channel ts (ps_transport ps) = Some ch"
    using GetChannelStats_live [OF assms(1,2) ps] by blast
  have cut: "json_uint w = JInt (int (unat w mod 2 ^ 32))" for w
  proof -
    have "uint (ucast w :: u32) = uint w mod 2 ^ 32"
      by (simp add: unsigned_ucast_eq take_bit_eq_mod)
    then show ?thesis
      by (simp add: json_uint_def zmod_int)
  qed
  have "jget (stat_json jg i) ''local_addr'' = Some (JStr (addr_to_string jg (ci_local_addr i)))"
    "jget (stat_json jg i) ''rem_addr'' = Some (JStr (addr_to_string jg (ci_rem_addr i)))"
    "jget (stat_json jg i) ''sent_total_bytes'' = Some (json_uint (ci_sent_total i))"
    "jget (stat_json jg i) ''recv_total_bytes'' = Some (json_uint (ci_recv_total i))" for i
    by (simp_all add: stat_json_def del: jset.simps)
  then show ?thesis
    using StateToJson_members [OF assms(1,2), of jg stats clock uid xmpp_time True] assms(3) ps ch cut
    by fastforce
qed

theorem state_stats_witness:
  "\<exists>peer l. StateToJson jingle0 \<lparr>tp_readable = (\<lambda>_. True), tp_writable = (\<lambda>_. True),
      tp_was_writable = (\<lambda>_. True), tp_channel = (\<lambda>_. Some 2), ch_ports = (\<lambda>_. [])\<rparr>
      (\<lambda>_. [\<lparr>ci_local_addr = sa_nil, ci_local_type = ''local'', ci_rem_addr = sa_nil, ci_rem_type = ''stun'',
        ci_best = True, ci_writable = True, ci_readable = True, ci_timeout = False, ci_new = False,
        ci_rtt = 5, ci_sent_total = 4294967299, ci_sent_second = 0, ci_recv_total = 7, ci_recv_second = 0\<rparr>])
      (0, 0) (demo_uid (CHR ''1'')) 0 True demo_linked = Inr peer \<and>
    jget peer ''stats'' = Some (JArr l) \<and> jget (l ! 0) ''sent_total_bytes'' = Some (JInt 3)"
proof -
  let ?ts = "\<lparr>tp_readable = (\<lambda>_. True), tp_writable = (\<lambda>_. True), tp_was_writable = (\<lambda>_. True),
      tp_channel = (\<lambda>_. Some 2), ch_ports = (\<lambda>_. [])\<rparr>"
  let ?s = "\<lambda>_ :: cref. [\<lparr>ci_local_addr = sa_nil, ci_local_type = ''local'', ci_rem_addr = sa_nil,
        ci_rem_type = ''stun'', ci_best = True, ci_writable = True, ci_readable = True, ci_timeout = False,
        ci_new = False, ci_rtt = 5, ci_sent_total = 4294967299, ci_sent_second = 0, ci_recv_total = 7,
        ci_recv_second = 0\<rparr>]"
  have 1: "channels_exist ?ts demo_linked" and 2: "link_up ?ts demo_linked (demo_uid (CHR ''1''))"
    by (simp_all add: channels_exist_def link_up_def demo_linked_def)
  from state_stats [OF demo_linked_ok 1 2, of jingle0 ?s "(0, 0)" 0] obtain peer ch l
    where p: "StateToJson jingle0 ?ts ?s (0, 0) (demo_uid (CHR ''1'')) 0 True demo_linked = Inr peer"
      and l: "jget peer ''stats'' = Some (JArr l)" "length l = length (?s ch)"
      and i: "\<forall>i < length l. jget (l ! i) ''sent_total_bytes'' =
        Some (JInt (int (unat (ci_sent_total (?s ch ! i)) mod 2 ^ 32)))"
    by blast
  from i [rule_format, of 0] l(2) have "jget (l ! 0) ''sent_total_bytes'' = Some (JInt 3)"
    by simp
  with p l(1) show ?thesis by blast
qed

section \<open>The order of the report\<close>

lemma omap_put_append: "\<forall>x \<in> set (map fst m). x < k \<Longrightarrow> omap_put k v m = m @ [(k, v)]"
  by (induction k v m rule: omap_put.induct) auto

lemma GetState_loop_order:
  assumes "\<forall>(uid, x) \<in> set friends. \<exists>j. state uid x = Inr j" and "sorted_wrt (<) (map fst ms @ map fst friends)"
  shows "GetState_loop state friends (JObj ms) =
    Inr (JObj (ms @ map (\<lambda>(uid, x). (uid, projr (state uid x))) friends))"
  using assms
proof (induction friends arbitrary: ms)
  case Nil
  then show ?case by simp
next
  case (Cons f friends)
  obtain uid x where f: "f = (uid, x)" by (cases f)
  obtain j where j: "state uid x = Inr j"
    using Cons.prems(1) f by auto
  have "\<forall>y \<in> set (map fst ms). y < uid"
    using Cons.prems(2) f by (auto simp: sorted_wrt_append)
  then have "jset uid j (JObj ms) = JObj (ms @ [(uid, j)])"
    by (simp add: omap_put_append)
  moreover have "GetState_loop state friends (JObj (ms @ [(uid, j)])) =
      Inr (JObj ((ms @ [(uid, j)]) @ map (\<lambda>(uid, x). (uid, projr (state uid x))) friends))"
    using Cons.prems f by (intro Cons.IH) simp_all
  ultimately show ?case
    using f j by simp
qed

end
