(* ===== verification/Xmpp_Network.thy ===== *)
theory Xmpp_Network
  imports Signaling Instances
begin

text \<open>
  \<open>TinCanTask\<close> and \<open>XmppNetwork\<close> (\<open>src/xmppnetwork.h\<close>, \<open>src/xmppnetwork.cc\<close>): which stanzas are
  taken, the map from peer ids to full JIDs, signalling over XMPP, and the machine that logs in,
  signs on, resends the presence and reconnects, driven by state changes and a timer.
\<close>

section \<open>Data\<close>

datatype xmpp_state = XMPP_NONE | XMPP_START | XMPP_OPENING | XMPP_OPEN | XMPP_CLOSED

text \<open>
  A stanza as the code queries it: the \<open>from\<close> attribute, whether it is a presence, whether
  \<open>MatchRequestIq\<close> accepts it, and its \<open>query\<close> element with the body texts of the elements
  \<open>data\<close> and \<open>type\<close> in it, each where it is present.
\<close>

record stanza =
  st_from :: string
  st_presence :: bool
  st_get_iq :: bool
  st_query :: "(string option \<times> string option) option"

text \<open>The functions of \<open>buzz::Jid\<close>, on JIDs in their string form.\<close>

record jid_api =
  jid_node :: "string \<Rightarrow> string"
  jid_domain :: "string \<Rightarrow> string"
  jid_resource :: "string \<Rightarrow> string"
  jid_same :: "string \<Rightarrow> string \<Rightarrow> bool"

text \<open>
  The state: the global \<open>g_uid_map\<close>, the stanzas queued in the task, the presence times, the state
  the engine last reported (uninitialised before the first \<open>Connect\<close>, so any value), which of the
  owned objects exist, the counter of timer messages, the number of timer messages pending in
  the main thread, and the number of objects given up by \<open>release()\<close> without being deleted.
\<close>

record xnet =
  xn_uid_map :: "string \<rightharpoonup> string"
  xn_stanzas :: "stanza list"
  xn_presence_time :: "(string, u32) omap"
  xn_state :: xmpp_state
  xn_pump :: bool
  xn_socket :: bool
  xn_presence_out :: bool
  xn_ping_task :: bool
  xn_tincan_task :: bool
  xn_settings :: xmpp_settings
  xn_uid :: string
  xn_counter :: int
  xn_timers :: nat
  xn_leaked :: nat

definition kXmppPrefix :: string where "kXmppPrefix = ''tincan''"
definition kInterval :: int where "kInterval = 15000"
definition kPresenceInterval :: int where "kPresenceInterval = 120"

text \<open>The constructor: \<open>st\<close> and \<open>counter\<close> are the uninitialised fields.\<close>

definition xnet_new :: "xmpp_state \<Rightarrow> int \<Rightarrow> xnet" where
  "xnet_new st counter =
     \<lparr>xn_uid_map = Map.empty, xn_stanzas = [], xn_presence_time = [], xn_state = st,
      xn_pump = False, xn_socket = False, xn_presence_out = False, xn_ping_task = False,
      xn_tincan_task = False,
      xn_settings = \<lparr>xc_user = '''', xc_host = '''', xc_resource = '''', xc_tls_required = False,
        xc_pass = '''', xc_server = sa_nil\<rparr>,
      xn_uid = '''', xn_counter = counter, xn_timers = 0, xn_leaked = 0\<rparr>"

section \<open>The task\<close>

text \<open>
  \<open>get_key\<close>: the 40 characters behind the resource prefix. \<open>find\<close> gives \<open>npos\<close> without a slash,
  and the addition of \<open>sizeof(kXmppPrefix)\<close>, which counts the terminating zero, wraps around.
\<close>

definition get_key :: "string \<Rightarrow> string result" where
  "get_key uid =
     (let idx = str_find uid (CHR ''/'') + of_nat (length kXmppPrefix + 1) in
      if idx + 40 \<le> of_nat (length uid) then str_substr uid (unat idx) 40 else Inr uid)"

definition TinCanTask_HandleStanza :: "stanza \<Rightarrow> xnet \<Rightarrow> bool \<times> xnet" where
  "TinCanTask_HandleStanza st net =
     (if st_get_iq st \<or> st_presence st then (True, net\<lparr>xn_stanzas := xn_stanzas net @ [st]\<rparr>)
      else (False, net))"

definition XmppNetwork_SetTime :: "string \<Rightarrow> u32 \<Rightarrow> xnet \<Rightarrow> xnet" where
  "XmppNetwork_SetTime uid xmpp_time net =
     net\<lparr>xn_presence_time := omap_put uid xmpp_time (xn_presence_time net)\<rparr>"

datatype task_result = STATE_BLOCKED | STATE_START

text \<open>A message \<open>(uid, data, type)\<close> handed to the peer handler.\<close>

type_synonym peer_message = "string \<times> string \<times> string"

text \<open>
  \<open>ProcessStart\<close>: \<open>own\<close> is the JID of the client, \<open>now\<close> the time. The body of the element \<open>type\<close>
  is read where the element \<open>data\<close> is present, as the code has it.
\<close>

definition TinCanTask_ProcessStart ::
  "jid_api \<Rightarrow> string \<Rightarrow> u32 \<Rightarrow> xnet \<Rightarrow> (task_result \<times> xnet \<times> peer_message list) result" where
  "TinCanTask_ProcessStart api own now net =
     (case xn_stanzas net of
        [] \<Rightarrow> Inr (STATE_BLOCKED, net, [])
      | st # rest \<Rightarrow>
          (let net = net\<lparr>xn_stanzas := rest\<rparr>; uid = st_from st in
           sbind (str_compare_sub (jid_resource api uid) 0 (length kXmppPrefix) kXmppPrefix)
             (\<lambda>c. if c = 0 \<and> \<not> jid_same api uid own
               then sbind (get_key uid) (\<lambda>uid_key.
                 let net = net\<lparr>xn_uid_map := (xn_uid_map net)(uid_key \<mapsto> uid)\<rparr> in
                 (case st_query st of
                    Some (xml_data, xml_type) \<Rightarrow>
                      (case xml_data of
                         None \<Rightarrow> Inr (STATE_START, net, [(uid_key, '''', '''')])
                       | Some data \<Rightarrow>
                           (case xml_type of
                              None \<Rightarrow> Inl NullDeref
                            | Some type \<Rightarrow> Inr (STATE_START, net, [(uid_key, data, type)])))
                  | None \<Rightarrow> Inr (STATE_START, XmppNetwork_SetTime uid_key now net, [])))
               else Inr (STATE_START, net, []))))"

definition TinCanTask_SendToPeer :: "xnet sender" where
  "TinCanTask_SendToPeer overlay_id uid data type net =
     (case xn_uid_map net uid of
        None \<Rightarrow> Inr (net, [])
      | Some jid \<Rightarrow> Inr (net, [XmppSend jid data type]))"

section \<open>The network\<close>

definition XmppNetwork_SendToPeer :: "xnet sender" where
  "XmppNetwork_SendToPeer overlay_id uid data type net =
     (if xn_state net = XMPP_OPEN \<and> xn_tincan_task net
      then TinCanTask_SendToPeer overlay_id uid data type net
      else Inr (net, []))"

text \<open>
  \<open>Connect\<close>: a new socket and a new pump, the login, then the timer: \<open>Clear\<close> removes the pending
  messages for this object, \<open>PostDelayed\<close> posts one.
\<close>

definition XmppNetwork_Connect :: "xnet \<Rightarrow> xnet \<times> io_event list" where
  "XmppNetwork_Connect net =
     (net\<lparr>xn_socket := True, xn_pump := True, xn_state := XMPP_NONE, xn_timers := 0 + 1,
          xn_counter := 0\<rparr>,
      [XmppDoLogin (xn_settings net)])"

definition XmppNetwork_Login ::
  "jid_api \<Rightarrow> jingle \<Rightarrow> string \<Rightarrow> string \<Rightarrow> string \<Rightarrow> string \<Rightarrow> int \<Rightarrow> xnet \<Rightarrow> bool \<times> xnet \<times> io_event list"
where
  "XmppNetwork_Login api jg username password pcid host port net =
     (if xn_pump net \<or> username = [] \<or> password = [] \<or> pcid = [] \<or> host = [] then (False, net, [])
      else (let (net', es) = XmppNetwork_Connect (net\<lparr>xn_settings :=
               \<lparr>xc_user = jid_node api username, xc_host = jid_domain api username,
                xc_resource = kXmppPrefix @ pcid, xc_tls_required = True, xc_pass = password,
                xc_server = addr_make jg host port\<rparr>\<rparr>)
            in (True, net', es)))"

text \<open>\<open>jid\<close> is the full JID of the client after the bind.\<close>

definition XmppNetwork_OnSignOn :: "string \<Rightarrow> xnet \<Rightarrow> xnet \<times> io_event list" where
  "XmppNetwork_OnSignOn jid net =
     (if \<not> xn_pump net then (net, [])
      else (net\<lparr>xn_uid := jid, xn_presence_out := True, xn_tincan_task := True, xn_stanzas := [],
                xn_ping_task := True\<rparr>,
            [XmppSendPresence, XmppStartTasks]))"

definition XmppNetwork_OnStateChange :: "string \<Rightarrow> xmpp_state \<Rightarrow> xnet \<Rightarrow> xnet \<times> io_event list" where
  "XmppNetwork_OnStateChange jid state net =
     (let net = net\<lparr>xn_state := state\<rparr> in
      case state of XMPP_OPEN \<Rightarrow> XmppNetwork_OnSignOn jid net | _ \<Rightarrow> (net, []))"

text \<open>Objects given up by \<open>release()\<close>.\<close>

definition released :: "bool list \<Rightarrow> nat" where
  "released ps = length (filter id ps)"

text \<open>
  \<open>OnMessage\<close>, the handler of the timer: \<open>child_error\<close> is the answer of \<open>AnyChildError\<close>.
\<close>

definition XmppNetwork_OnMessage :: "bool \<Rightarrow> xnet \<Rightarrow> xnet \<times> io_event list" where
  "XmppNetwork_OnMessage child_error net =
     (let (net', es) =
        (if \<not> xn_pump net then (net, [])
         else if xn_state net = XMPP_START \<or> xn_state net = XMPP_OPENING
         then (net, [XmppDoDisconnect])
         else if child_error \<and> xn_state net \<noteq> XMPP_CLOSED then (net, [XmppDoDisconnect])
         else if xn_state net = XMPP_NONE
         then XmppNetwork_Connect (net\<lparr>xn_leaked := xn_leaked net + released [xn_socket net],
                xn_socket := False\<rparr>)
         else if xn_state net = XMPP_CLOSED
         then XmppNetwork_Connect (net\<lparr>xn_leaked := xn_leaked net +
                  released [xn_socket net, xn_presence_out net, xn_tincan_task net, xn_ping_task net],
                xn_socket := False, xn_presence_out := False, xn_tincan_task := False,
                xn_ping_task := False\<rparr>)
         else if xn_state net = XMPP_OPEN \<and> xn_counter net mod kPresenceInterval = 0
         then (net\<lparr>xn_leaked := xn_leaked net + released [xn_presence_out net],
                xn_presence_out := True\<rparr>, [XmppSendPresence])
         else (net, []))
      in (net'\<lparr>xn_timers := xn_timers net' + 1, xn_counter := xn_counter net' + kInterval div 1000\<rparr>,
          es))"

text \<open>The main thread takes a pending timer message and runs its handler.\<close>

definition timer_fires :: "bool \<Rightarrow> xnet \<Rightarrow> xnet \<times> io_event list" where
  "timer_fires child_error net =
     XmppNetwork_OnMessage child_error (net\<lparr>xn_timers := xn_timers net - 1\<rparr>)"

lemmas xn_defs = XmppNetwork_SetTime_def XmppNetwork_SendToPeer_def TinCanTask_SendToPeer_def
  XmppNetwork_Connect_def XmppNetwork_Login_def XmppNetwork_OnSignOn_def
  XmppNetwork_OnStateChange_def XmppNetwork_OnMessage_def timer_fires_def
  TinCanTask_HandleStanza_def

interpretation xmpp_sender: signal_sender XmppNetwork_SendToPeer "\<lambda>net. net"
  by unfold_locales
    (auto simp: XmppNetwork_SendToPeer_def TinCanTask_SendToPeer_def split: if_splits option.splits)

section \<open>Peer keys\<close>

lemma kXmppPrefix_length [simp]: "length kXmppPrefix = 6"
  by (simp add: kXmppPrefix_def)

lemma of_nat_le_u64:
  "a < 2 ^ 64 \<Longrightarrow> b < 2 ^ 64 \<Longrightarrow> (of_nat a :: u64) \<le> of_nat b \<longleftrightarrow> a \<le> b"
  by (simp add: word_le_nat_alt unat_of_nat_u64)

lemma get_key_slash:
  assumes "CHR ''/'' \<notin> set bare" and "length key = 40"
    and "length (bare @ CHR ''/'' # kXmppPrefix @ key @ rest) < 2 ^ 64"
  shows "get_key (bare @ CHR ''/'' # kXmppPrefix @ key @ rest) = Inr key"
proof -
  let ?uid = "bare @ CHR ''/'' # kXmppPrefix @ key @ rest"
  let ?i = "length bare + 7"
  have idx: "str_find ?uid (CHR ''/'') + of_nat (length kXmppPrefix + 1) = of_nat ?i"
    using assms(1) by (simp add: str_find_append)
  have sum: "(of_nat ?i + 40 :: u64) = of_nat (?i + 40)"
    by simp
  have le: "(of_nat ?i + 40 :: u64) \<le> of_nat (length ?uid)"
    unfolding sum using assms(2,3) by (subst of_nat_le_u64) simp_all
  have i: "unat (of_nat ?i :: u64) = ?i"
    using assms(3) by (intro unat_of_nat_u64) simp
  have "drop ?i ?uid = key @ rest"
    by (simp add: numeral_eq_Suc)
  then have "str_substr ?uid ?i 40 = Inr key"
    using assms(2) by (simp add: str_substr_def)
  then show ?thesis
    unfolding get_key_def Let_def idx i using le by simp
qed

text \<open>\<open>get_key\<close> never throws: the offset it takes the substring from is inside the string.\<close>

lemma get_key_returns:
  assumes "length uid < 2 ^ 64 - 64"
  shows "\<exists>key. get_key uid = Inr key"
proof -
  let ?i = "str_find uid (CHR ''/'') + of_nat (length kXmppPrefix + 1) :: u64"
  have i: "unat ?i \<le> length uid + 7"
  proof (cases "CHR ''/'' \<in> set uid")
    case True
    let ?n = "length (takeWhile (\<lambda>x. x \<noteq> CHR ''/'') uid)"
    have n: "?n \<le> length uid"
      by (rule length_takeWhile_le)
    have "?i = of_nat (?n + 7)"
      using True by (simp add: str_find_def)
    moreover have "unat (of_nat (?n + 7) :: u64) = ?n + 7"
      using n assms by (intro unat_of_nat_u64) simp
    ultimately show ?thesis using n by simp
  next
    case False
    have "unat ?i = 6"
      unfolding str_find_absent [OF False] by (simp add: npos_def)
    then show ?thesis by linarith
  qed
  have "unat ?i \<le> length uid" if "?i + 40 \<le> of_nat (length uid)"
  proof -
    have "unat (?i + 40) = unat ?i + 40"
      using i assms by (subst unat_add_lem [THEN iffD1]) simp_all
    moreover have "unat (of_nat (length uid) :: u64) = length uid"
      using assms by (intro unat_of_nat_u64) simp
    ultimately show ?thesis
      using that by (simp add: word_le_nat_alt)
  qed
  then show ?thesis
    by (auto simp: get_key_def Let_def str_substr_def)
qed

section \<open>Reachable states\<close>

text \<open>
  The calls of the controller, the signals of the pump (which exist once it does) and the timer
  messages of the main thread.
\<close>

inductive xn_step :: "jid_api \<Rightarrow> jingle \<Rightarrow> string \<Rightarrow> xnet \<Rightarrow> xnet \<Rightarrow> bool"
  for api jg own where
  login: "XmppNetwork_Login api jg u p pc h port net = (b, net', es) \<Longrightarrow> xn_step api jg own net net'"
| state_change: "xn_pump net \<Longrightarrow> XmppNetwork_OnStateChange own st net = (net', es) \<Longrightarrow>
    xn_step api jg own net net'"
| timer: "0 < xn_timers net \<Longrightarrow> timer_fires err net = (net', es) \<Longrightarrow> xn_step api jg own net net'"
| stanza_in: "xn_tincan_task net \<Longrightarrow> TinCanTask_HandleStanza st net = (b, net') \<Longrightarrow>
    xn_step api jg own net net'"
| process: "xn_tincan_task net \<Longrightarrow> TinCanTask_ProcessStart api own now net = Inr (r, net', ms) \<Longrightarrow>
    xn_step api jg own net net'"
| send: "XmppNetwork_SendToPeer ov u d t net = Inr (net', es) \<Longrightarrow> xn_step api jg own net net'"

inductive xn_reachable :: "jid_api \<Rightarrow> jingle \<Rightarrow> string \<Rightarrow> xnet \<Rightarrow> bool" for api jg own where
  xn_start: "xn_reachable api jg own (xnet_new st counter)"
| xn_next: "xn_reachable api jg own net \<Longrightarrow> xn_step api jg own net net' \<Longrightarrow>
    xn_reachable api jg own net'"

definition xn_inv :: "xnet \<Rightarrow> bool" where
  "xn_inv net \<longleftrightarrow>
     (if xn_pump net
      then xn_socket net \<and> xn_timers net \<in> {1, 2} \<and> 0 \<le> xn_counter net \<and>
        15 dvd xn_counter net \<and>
        (xn_state net = XMPP_OPEN \<longrightarrow> xn_presence_out net \<and> xn_tincan_task net \<and> xn_ping_task net)
      else xn_timers net = 0 \<and> \<not> xn_socket net \<and> \<not> xn_presence_out net \<and> \<not> xn_tincan_task net \<and>
        \<not> xn_ping_task net)"

lemma xn_inv_frame [simp]:
  "xn_inv (net\<lparr>xn_uid_map := m\<rparr>) = xn_inv net"
  "xn_inv (net\<lparr>xn_stanzas := q\<rparr>) = xn_inv net"
  "xn_inv (net\<lparr>xn_presence_time := p\<rparr>) = xn_inv net"
  by (simp_all add: xn_inv_def)

lemma ProcessStart_inv:
  assumes "TinCanTask_ProcessStart api own now net = Inr (r, net', ms)"
  shows "xn_inv net' = xn_inv net"
proof (cases "xn_stanzas net")
  case Nil
  then show ?thesis
    using assms by (simp add: TinCanTask_ProcessStart_def)
next
  case (Cons st rest)
  note simps = TinCanTask_ProcessStart_def Let_def str_compare_sub_0 sbind_eq_Inr
    XmppNetwork_SetTime_def
  show ?thesis
  proof (cases "st_query st")
    case None
    then show ?thesis
      using assms Cons by (auto simp: simps split: if_splits)
  next
    case (Some q)
    then obtain d t where "st_query st = Some (d, t)"
      by (cases q) simp
    then show ?thesis
      using assms Cons by (cases d; cases t) (auto simp: simps split: if_splits)
  qed
qed

lemma ProcessStart_presence:
  assumes "TinCanTask_ProcessStart api own now net = Inr (r, net', ms)" and "omap_ok (xn_presence_time net)"
  shows "omap_ok (xn_presence_time net')"
proof (cases "xn_stanzas net")
  case Nil
  then show ?thesis
    using assms by (simp add: TinCanTask_ProcessStart_def)
next
  case (Cons st rest)
  note simps = TinCanTask_ProcessStart_def Let_def str_compare_sub_0 sbind_eq_Inr
    XmppNetwork_SetTime_def
  show ?thesis
  proof (cases "st_query st")
    case None
    then show ?thesis
      using assms Cons by (auto simp: simps intro: omap_ok_put split: if_splits)
  next
    case (Some q)
    then obtain d t where "st_query st = Some (d, t)"
      by (cases q) simp
    then show ?thesis
      using assms Cons by (cases d; cases t) (auto simp: simps split: if_splits)
  qed
qed

lemma presence_step:
  "xn_step api jg own net net' \<Longrightarrow> omap_ok (xn_presence_time net) \<Longrightarrow> omap_ok (xn_presence_time net')"
proof (induction rule: xn_step.induct)
  case (login u p pc h port net b net' es)
  then show ?case
    by (auto simp: XmppNetwork_Login_def XmppNetwork_Connect_def split: if_splits)
next
  case (state_change net st net' es)
  then show ?case
    by (auto simp: XmppNetwork_OnStateChange_def XmppNetwork_OnSignOn_def Let_def
        split: if_splits xmpp_state.splits)
next
  case (timer net err net' es)
  then show ?case
    by (auto simp: timer_fires_def XmppNetwork_OnMessage_def XmppNetwork_Connect_def Let_def
        split: if_splits)
next
  case (stanza_in net st b net')
  then show ?case by (auto simp: TinCanTask_HandleStanza_def split: if_splits)
next
  case (process net now r net' ms)
  then show ?case using ProcessStart_presence by blast
next
  case (send ov u d t net net' es)
  then show ?case
    by (auto simp: XmppNetwork_SendToPeer_def TinCanTask_SendToPeer_def split: if_splits option.splits)
qed

lemma xn_inv_step: "xn_step api jg own net net' \<Longrightarrow> xn_inv net \<Longrightarrow> xn_inv net'"
proof (induction rule: xn_step.induct)
  case (login u p pc h port net b net' es)
  then show ?case
    by (auto simp: XmppNetwork_Login_def XmppNetwork_Connect_def xn_inv_def Let_def split: if_splits)
next
  case (state_change net st net' es)
  then show ?case
    by (auto simp: XmppNetwork_OnStateChange_def XmppNetwork_OnSignOn_def xn_inv_def Let_def
        split: if_splits xmpp_state.splits)
next
  case (timer net err net' es)
  then show ?case
    by (auto simp: timer_fires_def XmppNetwork_OnMessage_def XmppNetwork_Connect_def xn_inv_def
        Let_def kInterval_def split: if_splits prod.splits)
next
  case (stanza_in net st b net')
  then show ?case
    by (auto simp: TinCanTask_HandleStanza_def xn_inv_def split: if_splits)
next
  case (process net now r net' ms)
  then show ?case
    using ProcessStart_inv by blast
next
  case (send ov u d t net net' es)
  then show ?case
    by (auto simp: XmppNetwork_SendToPeer_def TinCanTask_SendToPeer_def split: if_splits option.splits)
qed

lemma reachable_xn_inv: "xn_reachable api jg own net \<Longrightarrow> xn_inv net"
proof (induction rule: xn_reachable.induct)
  case (xn_start st counter)
  show ?case by (simp add: xn_inv_def xnet_new_def)
next
  case (xn_next net net')
  then show ?case by (blast intro: xn_inv_step)
qed

section \<open>The timer\<close>

lemma timer_fires_count:
  "xn_pump net \<Longrightarrow> xn_timers net = 2 \<Longrightarrow> timer_fires err net = (net', es) \<Longrightarrow>
     xn_pump net' \<and> xn_timers net' = 2"
  by (auto simp: timer_fires_def XmppNetwork_OnMessage_def XmppNetwork_Connect_def Let_def
      split: if_splits)

lemma ProcessStart_timers:
  assumes "TinCanTask_ProcessStart api own now net = Inr (r, net', ms)"
  shows "xn_pump net' = xn_pump net \<and> xn_timers net' = xn_timers net"
proof (cases "xn_stanzas net")
  case Nil
  then show ?thesis
    using assms by (simp add: TinCanTask_ProcessStart_def)
next
  case (Cons st rest)
  obtain q where q: "st_query st = q" by simp
  then show ?thesis
    using assms Cons
    by (cases q; (cases "the q")?; (cases "fst (the q)")?; (cases "snd (the q)")?)
      (auto simp: TinCanTask_ProcessStart_def Let_def str_compare_sub_0 tincan_simps
        XmppNetwork_SetTime_def split: if_splits)
qed

lemma two_timers_step:
  "xn_step api jg own net net' \<Longrightarrow> xn_pump net \<and> xn_timers net = 2 \<Longrightarrow>
     xn_pump net' \<and> xn_timers net' = 2"
proof (induction rule: xn_step.induct)
  case (login u p pc h port net b net' es)
  then show ?case by (simp add: XmppNetwork_Login_def)
next
  case (state_change net st net' es)
  then show ?case
    by (auto simp: XmppNetwork_OnStateChange_def XmppNetwork_OnSignOn_def Let_def
        split: if_splits xmpp_state.splits)
next
  case (timer net err net' es)
  then show ?case using timer_fires_count by blast
next
  case (stanza_in net st b net')
  then show ?case by (auto simp: TinCanTask_HandleStanza_def split: if_splits)
next
  case (process net now r net' ms)
  then show ?case using ProcessStart_timers by metis
next
  case (send ov u d t net net' es)
  then show ?case
    by (auto simp: XmppNetwork_SendToPeer_def TinCanTask_SendToPeer_def split: if_splits option.splits)
qed

lemma two_timers_steps:
  "(xn_step api jg own)\<^sup>*\<^sup>* net net' \<Longrightarrow> xn_pump net \<and> xn_timers net = 2 \<Longrightarrow>
     xn_pump net' \<and> xn_timers net' = 2"
  by (induction rule: rtranclp_induct) (use two_timers_step in blast)+

text \<open>\<open>n\<close> firings of the timer without a child error: the events of each.\<close>

fun fire_n :: "nat \<Rightarrow> xnet \<Rightarrow> io_event list list" where
  "fire_n 0 net = []"
| "fire_n (Suc n) net = (let (net', es) = timer_fires False net in es # fire_n n net')"

lemma timer_fires_open:
  assumes "xn_pump net" and "xn_state net = XMPP_OPEN"
  shows "\<exists>net'. timer_fires False net =
      (net', if xn_counter net mod 120 = 0 then [XmppSendPresence] else []) \<and>
    xn_pump net' \<and> xn_state net' = XMPP_OPEN \<and> xn_counter net' = xn_counter net + 15"
  using assms
  by (simp add: timer_fires_def XmppNetwork_OnMessage_def kPresenceInterval_def kInterval_def)

section \<open>Concrete states\<close>

definition jid_api0 :: jid_api where
  "jid_api0 = \<lparr>jid_node = takeWhile (\<lambda>c. c \<noteq> CHR ''@''),
     jid_domain = (\<lambda>j. takeWhile (\<lambda>c. c \<noteq> CHR ''/'') (tl (dropWhile (\<lambda>c. c \<noteq> CHR ''@'') j))),
     jid_resource = (\<lambda>j. tl (dropWhile (\<lambda>c. c \<noteq> CHR ''/'') j)), jid_same = (=)\<rparr>"

definition demo_key :: string where
  "demo_key = replicate 40 (CHR ''a'')"

definition demo_jid :: string where
  "demo_jid = ''bob@x/tincan'' @ demo_key"

definition demo_stanza :: "(string option \<times> string option) option \<Rightarrow> stanza" where
  "demo_stanza q = \<lparr>st_from = demo_jid, st_presence = (q = None), st_get_iq = (q \<noteq> None), st_query = q\<rparr>"

definition demo_net :: xnet where
  "demo_net = (xnet_new XMPP_OPEN 0)\<lparr>xn_pump := True, xn_socket := True, xn_presence_out := True,
     xn_ping_task := True, xn_tincan_task := True, xn_timers := 1\<rparr>"

lemma demo_get_key: "get_key demo_jid = Inr demo_key"
proof -
  have "demo_jid = ''bob@x'' @ CHR ''/'' # kXmppPrefix @ demo_key @ []"
    by (simp add: demo_jid_def kXmppPrefix_def)
  moreover have "length demo_jid < 2 ^ 64"
    by (simp add: demo_jid_def demo_key_def)
  ultimately show ?thesis
    using get_key_slash [of "''bob@x''" demo_key "[]"] by (simp add: demo_key_def)
qed

section \<open>Properties\<close>

text \<open>
  The key of a peer is recovered from the full JID it signs on with: for a JID
  \<open>bare/tincanKEY...\<close> with no slash in its bare part and a key of 40 characters, \<open>get_key\<close> returns
  the key; a string too short to hold one behind the prefix is returned as it is.
\<close>

theorem xmpp_get_key_roundtrip:
  assumes "CHR ''/'' \<notin> set bare" and "length key = 40"
    and "length (bare @ CHR ''/'' # kXmppPrefix @ key @ rest) < 2 ^ 64"
  shows "get_key (bare @ CHR ''/'' # kXmppPrefix @ key @ rest) = Inr key \<and>
    (length bare < 46 \<longrightarrow> get_key bare = Inr bare)"
proof (intro conjI impI)
  show "get_key (bare @ CHR ''/'' # kXmppPrefix @ key @ rest) = Inr key"
    by (rule get_key_slash [OF assms])
next
  assume short: "length bare < 46"
  then have "\<not> (46 :: u64) \<le> of_nat (length bare)"
    using of_nat_le_u64 [of 46 "length bare"] by simp
  then show "get_key bare = Inr bare"
    using assms(1) by (simp add: get_key_def str_find_absent npos_def)
qed

theorem xmpp_get_key_roundtrip_witness:
  "get_key (''bob@x'' @ CHR ''/'' # kXmppPrefix @ demo_key @ ''01'') = Inr demo_key \<and>
   get_key ''bob@x'' = Inr ''bob@x''"
  using xmpp_get_key_roundtrip [of "''bob@x''" demo_key "''01''"]
  by (simp add: demo_key_def kXmppPrefix_def)

text \<open>
  Claim C29. A request from another tincan peer teaches the way back: it is handed on as a message
  from the key of its sender, and from then on a message for that key goes, over an open
  connection, to exactly the JID the request came from.
\<close>

theorem xmpp_reply_path:
  assumes "xn_stanzas net = st # rest" and "st_query st = Some (Some data, Some type)"
    and "take 6 (jid_resource api (st_from st)) = kXmppPrefix" and "\<not> jid_same api (st_from st) own"
    and "get_key (st_from st) = Inr key" and "xn_state net = XMPP_OPEN" and "xn_tincan_task net"
  shows "\<exists>net'. TinCanTask_ProcessStart api own now net =
      Inr (STATE_START, net', [(key, data, type)]) \<and>
    XmppNetwork_SendToPeer ov key d t net' = Inr (net', [XmppSend (st_from st) d t])"
  using assms
  by (simp add: TinCanTask_ProcessStart_def str_compare_sub_0 XmppNetwork_SendToPeer_def
      TinCanTask_SendToPeer_def)

theorem xmpp_reply_path_witness:
  "\<exists>net'. TinCanTask_ProcessStart jid_api0 ''me'' 0
       (demo_net\<lparr>xn_stanzas := [demo_stanza (Some (Some ''fpr'', Some ''con_req''))]\<rparr>) =
     Inr (STATE_START, net', [(demo_key, ''fpr'', ''con_req'')]) \<and>
   XmppNetwork_SendToPeer 1 demo_key ''d'' ''con_resp'' net' =
     Inr (net', [XmppSend demo_jid ''d'' ''con_resp''])"
proof -
  let ?st = "demo_stanza (Some (Some ''fpr'', Some ''con_req''))"
  let ?net = "demo_net\<lparr>xn_stanzas := [?st]\<rparr>"
  have sender: "st_from ?st = demo_jid"
    by (simp add: demo_stanza_def)
  have "xn_stanzas ?net = [?st]" "st_query ?st = Some (Some ''fpr'', Some ''con_req'')"
    "take 6 (jid_resource jid_api0 (st_from ?st)) = kXmppPrefix"
    "\<not> jid_same jid_api0 (st_from ?st) ''me''" "get_key (st_from ?st) = Inr demo_key"
    "xn_state ?net = XMPP_OPEN" "xn_tincan_task ?net"
    using demo_get_key
    by (simp_all add: demo_stanza_def jid_api0_def demo_jid_def kXmppPrefix_def demo_net_def
        xnet_new_def)
  from xmpp_reply_path [OF this, of 0 1 "''d''" "''con_resp''"] show ?thesis
    unfolding sender .
qed

text \<open>
  Claim C36. \<open>ProcessStart\<close> fails in one case only: the first queued stanza is from another tincan
  peer and carries a \<open>query\<close> with a \<open>data\<close> element but no \<open>type\<close> element, which it then reads
  through a null pointer. In every other case it returns.
\<close>

theorem xmpp_ProcessStart_faults:
  assumes "\<forall>st \<in> set (xn_stanzas net). length (st_from st) < 2 ^ 64 - 64"
  shows "TinCanTask_ProcessStart api own now net = Inl e \<longleftrightarrow>
    e = NullDeref \<and> (\<exists>st rest data. xn_stanzas net = st # rest \<and>
      take 6 (jid_resource api (st_from st)) = kXmppPrefix \<and> \<not> jid_same api (st_from st) own \<and>
      st_query st = Some (Some data, None))"
proof (cases "xn_stanzas net")
  case Nil
  then show ?thesis by (simp add: TinCanTask_ProcessStart_def)
next
  case (Cons st rest)
  then obtain key where "get_key (st_from st) = Inr key"
    using assms get_key_returns [of "st_from st"] by auto
  then show ?thesis
    using Cons
    by (auto simp: TinCanTask_ProcessStart_def Let_def str_compare_sub_0 split: option.splits prod.splits)
qed

theorem xmpp_ProcessStart_faults_witness:
  "TinCanTask_ProcessStart jid_api0 ''me'' 0
     (demo_net\<lparr>xn_stanzas := [demo_stanza (Some (Some ''fpr'', None))]\<rparr>) = Inl NullDeref"
proof -
  let ?net = "demo_net\<lparr>xn_stanzas := [demo_stanza (Some (Some ''fpr'', None))]\<rparr>"
  have "\<forall>st \<in> set (xn_stanzas ?net). length (st_from st) < 2 ^ 64 - 64"
    by (simp add: demo_stanza_def demo_jid_def demo_key_def)
  from xmpp_ProcessStart_faults [OF this, of jid_api0 "''me''" 0 NullDeref] show ?thesis
    by (simp add: demo_stanza_def jid_api0_def demo_jid_def kXmppPrefix_def)
qed

text \<open>
  Claim C22. In every reachable state of the network the reconnection timer is alive once a login
  was started: one or two timer messages are pending; and while the engine is open the tasks
  that the handlers use exist. Before a login no timer is pending and nothing is sent to a
  peer, whatever the uninitialised state field holds.
\<close>

theorem xmpp_timer_alive:
  assumes "xn_reachable api jg own net"
  shows "if xn_pump net
    then xn_timers net \<in> {1, 2} \<and>
      (xn_state net = XMPP_OPEN \<longrightarrow> xn_presence_out net \<and> xn_tincan_task net \<and> xn_ping_task net)
    else xn_timers net = 0 \<and> XmppNetwork_SendToPeer ov uid data type net = Inr (net, [])"
  using reachable_xn_inv [OF assms] by (auto simp: xn_inv_def XmppNetwork_SendToPeer_def)

theorem xmpp_timer_alive_witness:
  "XmppNetwork_SendToPeer 1 demo_key ''d'' ''t'' (xnet_new XMPP_OPEN 7) = Inr (xnet_new XMPP_OPEN 7, [])"
  using xmpp_timer_alive [OF xn_start [where st = XMPP_OPEN and counter = 7],
      where ov = 1 and uid = demo_key and data = "''d''" and type = "''t''"]
  by (simp add: xnet_new_def)

text \<open>
  Claim C38. A reconnection from the timer handler doubles the timer: \<open>Connect\<close> posts a message and
  the handler posts another one, and from then on two messages are pending after every step of
  the network, for good.
\<close>

theorem xmpp_timer_doubles:
  assumes "xn_pump net" and "xn_timers net = 1" and "xn_state net = XMPP_CLOSED"
    and "timer_fires err net = (net1, es)" and "(xn_step api jg own)\<^sup>*\<^sup>* net1 net2"
  shows "es = [XmppDoLogin (xn_settings net)] \<and> xn_state net1 = XMPP_NONE \<and> xn_counter net1 = 15 \<and>
    \<not> xn_tincan_task net1 \<and> xn_timers net1 = 2 \<and> xn_timers net2 = 2"
proof -
  have 1: "es = [XmppDoLogin (xn_settings net)] \<and> xn_state net1 = XMPP_NONE \<and> xn_counter net1 = 15 \<and>
    \<not> xn_tincan_task net1 \<and> xn_timers net1 = 2 \<and> xn_pump net1"
    using assms(1-4)
    by (auto simp: timer_fires_def XmppNetwork_OnMessage_def XmppNetwork_Connect_def Let_def
        kInterval_def)
  then show ?thesis
    using two_timers_steps [OF assms(5)] by simp
qed

theorem xmpp_timer_doubles_witness:
  "xn_timers (fst (timer_fires False (demo_net\<lparr>xn_state := XMPP_CLOSED\<rparr>))) = 2"
proof -
  let ?net = "demo_net\<lparr>xn_state := XMPP_CLOSED\<rparr>"
  have "xn_pump ?net" "xn_timers ?net = 1" "xn_state ?net = XMPP_CLOSED"
    by (simp_all add: demo_net_def)
  moreover obtain net1 es where "timer_fires False ?net = (net1, es)"
    by (cases "timer_fires False ?net") simp
  ultimately show ?thesis
    using xmpp_timer_doubles [OF _ _ _ _ rtranclp.rtrancl_refl, of ?net False net1 es] by simp
qed

text \<open>
  While the connection stays open without a task error, the \<open>k\<close>-th firing of the timer
  resends the presence exactly when the counter, which grows by 15 each time, is then a multiple
  of 120: every eighth firing.
\<close>

theorem xmpp_presence_period:
  assumes "xn_pump net" and "xn_state net = XMPP_OPEN" and "k < n"
  shows "fire_n n net ! k =
    (if (xn_counter net + 15 * int k) mod 120 = 0 then [XmppSendPresence] else [])"
  using assms
proof (induction n arbitrary: net k)
  case 0
  then show ?case by simp
next
  case (Suc n)
  obtain net' where n: "timer_fires False net =
      (net', if xn_counter net mod 120 = 0 then [XmppSendPresence] else [])"
    "xn_pump net'" "xn_state net' = XMPP_OPEN" "xn_counter net' = xn_counter net + 15"
    using timer_fires_open Suc.prems(1,2) by blast
  show ?case
  proof (cases k)
    case 0
    then show ?thesis using n(1) by simp
  next
    case (Suc j)
    then show ?thesis
      using n Suc.IH [OF n(2,3), of j] Suc.prems(3) by (simp add: algebra_simps)
  qed
qed

theorem xmpp_presence_period_witness:
  "fire_n 9 demo_net ! 8 = [XmppSendPresence]"
  using xmpp_presence_period [of demo_net 8 9] by (simp add: demo_net_def xnet_new_def)

end
