(* ===== verification/Controller.thy ===== *)
theory Controller
  imports Data_Plane Candidates Peer_Status Xmpp_Network
begin

text \<open>
  \<open>ControllerAccess\<close> (\<open>src/controlleraccess.h\<close>, \<open>src/controlleraccess.cc\<close>): the datagrams from and
  to the controller, the remote procedure calls in them and the state report.
\<close>

section \<open>State\<close>

text \<open>
  The controller access, with the network it refers to, the table \<open>rpc_calls\<close> and the options it
  shares with ipop-tap; and a node: this with the manager and its queues.
\<close>

record ctl =
  ct_net :: xnet
  ct_remote_addr :: sockaddr
  ct_rpc_calls :: "string \<rightharpoonup> int"
  ct_translate :: int
  ct_switchmode :: int
  ct_mac :: "byte list"
  ct_bound :: "sock \<Rightarrow> string \<times> int"

record node =
  nd_plane :: plane
  nd_ctl :: ctl

abbreviation nd_mgr :: "node \<Rightarrow> mgr" where
  "nd_mgr nd \<equiv> pl_mgr (nd_plane nd)"

definition set_mgr :: "mgr \<Rightarrow> node \<Rightarrow> node" where
  "set_mgr m nd = nd\<lparr>nd_plane := (nd_plane nd)\<lparr>pl_mgr := m\<rparr>\<rparr>"

definition set_net :: "xnet \<Rightarrow> node \<Rightarrow> node" where
  "set_net net nd = nd\<lparr>nd_ctl := (nd_ctl nd)\<lparr>ct_net := net\<rparr>\<rparr>"

lemma node_simps [simp]:
  "nd_mgr (set_mgr m nd) = m" "nd_ctl (set_mgr m nd) = nd_ctl nd"
  "nd_plane (set_net net nd) = nd_plane nd" "ct_net (nd_ctl (set_net net nd)) = net"
  "ct_remote_addr (nd_ctl (set_net net nd)) = ct_remote_addr (nd_ctl nd)"
  "ct_rpc_calls (nd_ctl (set_net net nd)) = ct_rpc_calls (nd_ctl nd)"
  "g_send_queue (nd_plane (set_mgr m nd)) = g_send_queue (nd_plane nd)"
  "g_recv_queue (nd_plane (set_mgr m nd)) = g_recv_queue (nd_plane nd)"
  "pl_signals (nd_plane (set_mgr m nd)) = pl_signals (nd_plane nd)"
  "g_manager (nd_plane (set_mgr m nd)) = g_manager (nd_plane nd)"
  by (simp_all add: set_mgr_def set_net_def)

text \<open>
  What a call of the handler gets from outside: the libraries, the answers of the transports and
  channels, the clock, the content of freshly allocated memory, whether it is a debug build, the
  results of ipop-tap and the addresses of a new transport and its channel.
\<close>

record env =
  e_jg :: jingle
  e_json :: json_api
  e_jid :: jid_api
  e_ts :: tstate
  e_stats :: "cref \<Rightarrow> conn_info list"
  e_now :: u32
  e_clocks :: "string \<Rightarrow> u32 \<times> u32"
  e_junk :: "nat \<Rightarrow> byte"
  e_debug :: bool
  e_tap :: "tap_call \<Rightarrow> u32"
  e_new_t :: tref
  e_new_ch :: cref

section \<open>The remote procedure calls\<close>

definition kDefaultXmppPort :: int where "kDefaultXmppPort = 5222"

definition REGISTER_SVC :: int where "REGISTER_SVC = 1"
definition CREATE_LINK :: int where "CREATE_LINK = 2"
definition SET_LOCAL_IP :: int where "SET_LOCAL_IP = 3"
definition SET_REMOTE_IP :: int where "SET_REMOTE_IP = 4"
definition TRIM_LINK :: int where "TRIM_LINK = 5"
definition SET_CB_ENDPOINT :: int where "SET_CB_ENDPOINT = 6"
definition GET_STATE :: int where "GET_STATE = 7"
definition SET_LOGGING :: int where "SET_LOGGING = 8"
definition SET_TRANSLATION :: int where "SET_TRANSLATION = 9"
definition SET_SWITCHMODE :: int where "SET_SWITCHMODE = 10"
definition SET_TRIMPOLICY :: int where "SET_TRIMPOLICY = 11"
definition ECHO_REQUEST :: int where "ECHO_REQUEST = 12"
definition ECHO_REPLY :: int where "ECHO_REPLY = 13"
definition SET_NETWORK_IGNORE_LIST :: int where "SET_NETWORK_IGNORE_LIST = 14"

lemmas rpc_codes = REGISTER_SVC_def CREATE_LINK_def SET_LOCAL_IP_def SET_REMOTE_IP_def TRIM_LINK_def
  SET_CB_ENDPOINT_def GET_STATE_def SET_LOGGING_def SET_TRANSLATION_def SET_SWITCHMODE_def
  SET_TRIMPOLICY_def ECHO_REQUEST_def ECHO_REPLY_def SET_NETWORK_IGNORE_LIST_def

text \<open>The assignments of \<open>init_map\<close>.\<close>

definition rpc_table :: "(string \<times> int) list" where
  "rpc_table =
     [(''register_svc'', REGISTER_SVC), (''create_link'', CREATE_LINK), (''set_local_ip'', SET_LOCAL_IP),
      (''set_remote_ip'', SET_REMOTE_IP), (''trim_link'', TRIM_LINK), (''set_cb_endpoint'', SET_CB_ENDPOINT),
      (''get_state'', GET_STATE), (''set_logging'', SET_LOGGING), (''set_translation'', SET_TRANSLATION),
      (''set_switchmode'', SET_SWITCHMODE), (''set_trimpolicy'', SET_TRIMPOLICY),
      (''echo_request'', ECHO_REQUEST), (''echo_reply'', ECHO_REPLY),
      (''set_network_ignore_list'', SET_NETWORK_IGNORE_LIST)]"

definition init_map :: "(string \<rightharpoonup> int) \<Rightarrow> (string \<rightharpoonup> int)" where
  "init_map rpc_calls = fold (\<lambda>(meth, call) m. m(meth \<mapsto> call)) rpc_table rpc_calls"

text \<open>
  The constructor: the two sockets are bound to the loopback addresses and the port \<open>kUdpPort\<close>, the one
  for IPv6 becomes the socket the manager forwards packets on, and the table is filled.
\<close>

definition kLocalHost :: string where "kLocalHost = ''127.0.0.1''"
definition kLocalHost6 :: string where "kLocalHost6 = ''::1''"

definition ControllerAccess_new :: "int \<Rightarrow> byte list \<Rightarrow> xnet \<Rightarrow> plane \<Rightarrow> node" where
  "ControllerAccess_new kUdpPort mac net p =
     \<lparr>nd_plane = p\<lparr>pl_mgr := set_forward_socket Sock6 (pl_mgr p)\<rparr>,
      nd_ctl = \<lparr>ct_net = net, ct_remote_addr = sa_nil, ct_rpc_calls = init_map Map.empty,
        ct_translate = 0, ct_switchmode = 0, ct_mac = mac,
        ct_bound = case_sock (kLocalHost, kUdpPort) (kLocalHost6, kUdpPort)\<rparr>\<rparr>"

section \<open>Sending\<close>

definition SendTo :: "jingle \<Rightarrow> (nat \<Rightarrow> byte) \<Rightarrow> byte list \<Rightarrow> sockaddr \<Rightarrow> io_event list" where
  "SendTo jg junk data addr =
     (let msg = build_msg junk (Some kTincanControl) data in
      case addr_family jg addr of
        AF_INET \<Rightarrow> [UdpSend Sock4 msg addr]
      | AF_INET6 \<Rightarrow> [UdpSend Sock6 msg addr]
      | AF_UNSPEC \<Rightarrow> [])"

definition SendJson :: "env \<Rightarrow> json \<Rightarrow> sockaddr \<Rightarrow> io_event list" where
  "SendJson e j addr = SendTo (e_jg e) (e_junk e) (bytes_of_string (j_styled (e_json e) j)) addr"

definition ControllerAccess_SendToPeer :: "env \<Rightarrow> ctl sender" where
  "ControllerAccess_SendToPeer e overlay_id uid data type c =
     Inr (c, SendJson e (jset_all [(''uid'', JStr uid), (''data'', JStr data), (''type'', JStr type)] (JObj []))
       (ct_remote_addr c))"

text \<open>The two services behind the dispatcher of \<open>PeerSignalSender\<close>.\<close>

definition service_call :: "env \<Rightarrow> service \<Rightarrow> ctl sender" where
  "service_call e svc overlay_id uid data type c =
     (case svc of
        SvcController \<Rightarrow> ControllerAccess_SendToPeer e overlay_id uid data type c
      | SvcXmpp \<Rightarrow> ebind (XmppNetwork_SendToPeer overlay_id uid data type (ct_net c))
          (\<lambda>net. Inr (c\<lparr>ct_net := net\<rparr>, [])))"

text \<open>
  The address of the tap device as six bytes in hexadecimal, of width two, between colons.
\<close>

definition hex_char :: "nat \<Rightarrow> char" where
  "hex_char n = char_of (if n < 10 then 48 + n else 87 + n)"

definition mac_string :: "byte list \<Rightarrow> string" where
  "mac_string mac = concat (map (\<lambda>i. (if i \<noteq> 0 then '':'' else []) @
     [hex_char (unat (mac ! i) div 16), hex_char (unat (mac ! i) mod 16)]) [0..<6])"

definition local_state :: "node \<Rightarrow> json" where
  "local_state nd = jset_all
     [(''_uid'', JStr (tincan_id (nd_mgr nd))), (''_ip4'', JStr (tincan_ip4 (nd_mgr nd))),
      (''_ip6'', JStr (tincan_ip6 (nd_mgr nd))), (''_fpr'', JStr (fingerprint (nd_mgr nd))),
      (''type'', JStr ''local_state''), (''_mac'', JStr (mac_string (ct_mac (nd_ctl nd))))] JNull"

definition SendState :: "env \<Rightarrow> string \<Rightarrow> bool \<Rightarrow> sockaddr \<Rightarrow> node \<Rightarrow> io_event list result" where
  "SendState e uid get_stats addr nd =
     (let friends = (if uid \<noteq> [] then omap_put uid (e_now e) [] else xn_presence_time (ct_net (nd_ctl nd)))
      in sbind (GetState (e_jg e) (e_ts e) (e_stats e) (e_clocks e) friends get_stats (nd_mgr nd)) (\<lambda>state.
        Inr (SendJson e (local_state nd) addr @
          concat (map (\<lambda>(k, peer). SendJson e (jset ''type'' (JStr ''peer_state'') peer) addr)
            (jmembers state)))))"

section \<open>Handlers of the calls\<close>

text \<open>
  \<open>root\<close> is the parsed message and \<open>addr\<close> the sender. The arguments are read in the order of the
  code, so the first one that throws ends the call.
\<close>

definition rpc_register_svc :: "env \<Rightarrow> json \<Rightarrow> node \<Rightarrow> node step" where
  "rpc_register_svc e root nd =
     sbind (get_string (e_json e) root ''username'') (\<lambda>user.
     sbind (get_string (e_json e) root ''password'') (\<lambda>pass.
     sbind (get_string (e_json e) root ''host'') (\<lambda>host.
     sbind (if j_is_member (e_json e) root ''port'' then get_int (e_json e) root ''port''
            else Inr kDefaultXmppPort) (\<lambda>port.
       let (res, net, es) = XmppNetwork_Login (e_jid e) (e_jg e) user pass (tincan_id (nd_mgr nd)) host port
             (ct_net (nd_ctl nd))
       in Inr (set_net net nd, es)))))"

definition rpc_create_link :: "env \<Rightarrow> json \<Rightarrow> node \<Rightarrow> node step" where
  "rpc_create_link e root nd =
     sbind (get_int (e_json e) root ''overlay_id'') (\<lambda>overlay_id.
     sbind (get_string (e_json e) root ''uid'') (\<lambda>uid.
     sbind (get_string (e_json e) root ''fpr'') (\<lambda>fpr.
     sbind (get_string (e_json e) root ''stun'') (\<lambda>stun.
     sbind (get_string (e_json e) root ''turn'') (\<lambda>turn.
     sbind (get_string (e_json e) root ''turn_user'') (\<lambda>turn_user.
     sbind (get_string (e_json e) root ''turn_pass'') (\<lambda>turn_pass.
     sbind (get_string (e_json e) root ''cas'') (\<lambda>cas.
     sbind (get_bool (e_json e) root ''sec'') (\<lambda>sec.
       let (res, m, es) = CreateTransport (e_jg e) (e_now e) (e_new_t e) (e_new_ch e) uid
             \<lparr>la_fingerprint = fpr, la_overlay_id = overlay_id, la_stun_server = stun,
              la_turn_server = turn, la_turn_user = turn_user, la_turn_pass = turn_pass,
              la_sec_enabled = sec\<rparr> (nd_mgr nd)
       in if cas \<noteq> []
          then sbind (CreateConnections (e_jg e) uid cas m) (\<lambda>(res', m', es').
            Inr (set_mgr m' nd, es @ es'))
          else Inr (set_mgr m nd, es))))))))))"

definition rpc_set_local_ip :: "env \<Rightarrow> json \<Rightarrow> node \<Rightarrow> node step" where
  "rpc_set_local_ip e root nd =
     sbind (get_string (e_json e) root ''uid'') (\<lambda>uid.
     sbind (get_string (e_json e) root ''ip4'') (\<lambda>ip4.
     sbind (get_string (e_json e) root ''ip6'') (\<lambda>ip6.
     sbind (get_int (e_json e) root ''ip4_mask'') (\<lambda>ip4_mask.
     sbind (get_int (e_json e) root ''ip6_mask'') (\<lambda>ip6_mask.
     sbind (get_int (e_json e) root ''subnet_mask'') (\<lambda>subnet_mask.
     sbind (get_int (e_json e) root ''switchmode'') (\<lambda>switchmode.
     sbind (Setup (e_jg e) (e_debug e) (e_tap e) uid ip4 ip4_mask ip6 ip6_mask subnet_mask switchmode
         (nd_mgr nd)) (\<lambda>(m, es). Inr (set_mgr m nd, es)))))))))"

definition rpc_set_remote_ip :: "env \<Rightarrow> json \<Rightarrow> node \<Rightarrow> node step" where
  "rpc_set_remote_ip e root nd =
     sbind (get_string (e_json e) root ''uid'') (\<lambda>uid.
     sbind (get_string (e_json e) root ''ip4'') (\<lambda>ip4.
     sbind (get_string (e_json e) root ''ip6'') (\<lambda>ip6.
       let (res, m, es) = AddIPMapping (e_jg e) uid ip4 ip6 (nd_mgr nd) in Inr (set_mgr m nd, es))))"

definition rpc_trim_link :: "env \<Rightarrow> json \<Rightarrow> node \<Rightarrow> node step" where
  "rpc_trim_link e root nd =
     sbind (get_string (e_json e) root ''uid'') (\<lambda>uid.
       let (res, m, es) = DestroyTransport uid (nd_mgr nd) in Inr (set_mgr m nd, es))"

definition rpc_set_cb_endpoint :: "env \<Rightarrow> json \<Rightarrow> sockaddr \<Rightarrow> node \<Rightarrow> node step" where
  "rpc_set_cb_endpoint e root addr nd =
     sbind (get_string (e_json e) root ''ip'') (\<lambda>ip.
     sbind (get_int (e_json e) root ''port'') (\<lambda>port.
       let remote = (if str_compare ip ''::'' = 0 then addr
             else (addr_set_ip (e_jg e) ip (ct_remote_addr (nd_ctl nd)))\<lparr>sa_port := of_int port\<rparr>);
           nd = nd\<lparr>nd_ctl := (nd_ctl nd)\<lparr>ct_remote_addr := remote\<rparr>\<rparr>
       in Inr (set_mgr (set_forward_addr remote (nd_mgr nd)) nd, [])))"

definition rpc_get_state :: "env \<Rightarrow> json \<Rightarrow> sockaddr \<Rightarrow> node \<Rightarrow> node step" where
  "rpc_get_state e root addr nd =
     sbind (get_string (e_json e) root ''uid'') (\<lambda>uid.
     sbind (get_bool (e_json e) root ''stats'') (\<lambda>get_stats.
     sbind (SendState e uid get_stats addr nd) (\<lambda>es. Inr (nd, es))))"

text \<open>The levels are libjingle's: \<open>LS_ERROR + 1\<close>, \<open>LS_ERROR\<close>, \<open>LS_INFO\<close>, \<open>LS_SENSITIVE\<close>.\<close>

definition LS_SENSITIVE :: int where "LS_SENSITIVE = 0"
definition LS_INFO :: int where "LS_INFO = 2"
definition LS_ERROR :: int where "LS_ERROR = 4"

definition rpc_set_logging :: "env \<Rightarrow> json \<Rightarrow> node \<Rightarrow> node step" where
  "rpc_set_logging e root nd =
     sbind (get_int (e_json e) root ''logging'') (\<lambda>logging.
       Inr (nd, if logging = 0 then [SetLogLevel (LS_ERROR + 1)]
                else if logging = 1 then [SetLogLevel LS_ERROR]
                else if logging = 2 then [SetLogLevel LS_INFO]
                else if logging = 3 then [SetLogLevel LS_SENSITIVE]
                else []))"

definition rpc_set_translation :: "env \<Rightarrow> json \<Rightarrow> node \<Rightarrow> node step" where
  "rpc_set_translation e root nd =
     sbind (get_int (e_json e) root ''translate'') (\<lambda>translate.
       Inr (nd\<lparr>nd_ctl := (nd_ctl nd)\<lparr>ct_translate := translate\<rparr>\<rparr>, []))"

definition rpc_set_switchmode :: "env \<Rightarrow> json \<Rightarrow> node \<Rightarrow> node step" where
  "rpc_set_switchmode e root nd =
     sbind (get_int (e_json e) root ''switchmode'') (\<lambda>switchmode.
       Inr (nd\<lparr>nd_ctl := (nd_ctl nd)\<lparr>ct_switchmode := switchmode\<rparr>\<rparr>, []))"

definition rpc_set_trimpolicy :: "env \<Rightarrow> json \<Rightarrow> node \<Rightarrow> node step" where
  "rpc_set_trimpolicy e root nd =
     sbind (get_bool (e_json e) root ''trim_enabled'') (\<lambda>trim.
       Inr (set_mgr (set_trim_connection trim (nd_mgr nd)) nd, []))"

definition rpc_echo_request :: "env \<Rightarrow> json \<Rightarrow> sockaddr \<Rightarrow> node \<Rightarrow> node step" where
  "rpc_echo_request e root addr nd =
     sbind (get_string (e_json e) root ''msg'') (\<lambda>msg.
       Inr (nd, SendJson e (jset_all [(''type'', JStr ''echo_request''), (''msg'', JStr msg)] JNull) addr))"

fun get_strings :: "json_api \<Rightarrow> json list \<Rightarrow> string list result" where
  "get_strings api [] = Inr []"
| "get_strings api (j # js) =
     sbind (from_opt JsonThrow (j_as_string api j)) (\<lambda>s.
     sbind (get_strings api js) (\<lambda>ss. Inr (s # ss)))"

definition rpc_set_network_ignore_list :: "env \<Rightarrow> json \<Rightarrow> node \<Rightarrow> node step" where
  "rpc_set_network_ignore_list e root nd =
     sbind (from_opt JsonThrow (j_member (e_json e) root ''network_ignore_list'')) (\<lambda>l.
       let count = j_size (e_json e) l in
       if \<not> j_is_array (e_json e) l then Inr (nd, [])
       else
         sbind (get_strings (e_json e) (map (j_index (e_json e) l) [0..<count])) (\<lambda>ignore_list.
           let (m, es) = set_network_ignore_list ignore_list (nd_mgr nd) in Inr (set_mgr m nd, es)))"

definition rpc_default :: "env \<Rightarrow> json \<Rightarrow> string \<Rightarrow> node \<Rightarrow> node step" where
  "rpc_default e root meth nd =
     sbind (get_int (e_json e) root ''overlay_id'') (\<lambda>overlay_id.
     sbind (get_string (e_json e) root ''uid'') (\<lambda>uid.
     sbind (get_string (e_json e) root ''data'') (\<lambda>fpr.
     ebind (XmppNetwork_SendToPeer overlay_id uid fpr meth (ct_net (nd_ctl nd))) (\<lambda>net.
       Inr (set_net net nd, [])))))"

text \<open>The \<open>switch\<close>.\<close>

definition rpc_switch :: "env \<Rightarrow> int \<Rightarrow> string \<Rightarrow> json \<Rightarrow> sockaddr \<Rightarrow> node \<Rightarrow> node step" where
  "rpc_switch e call meth root addr nd =
     (if call = REGISTER_SVC then rpc_register_svc e root nd
      else if call = CREATE_LINK then rpc_create_link e root nd
      else if call = SET_LOCAL_IP then rpc_set_local_ip e root nd
      else if call = SET_REMOTE_IP then rpc_set_remote_ip e root nd
      else if call = TRIM_LINK then rpc_trim_link e root nd
      else if call = SET_CB_ENDPOINT then rpc_set_cb_endpoint e root addr nd
      else if call = GET_STATE then rpc_get_state e root addr nd
      else if call = SET_LOGGING then rpc_set_logging e root nd
      else if call = SET_TRANSLATION then rpc_set_translation e root nd
      else if call = SET_SWITCHMODE then rpc_set_switchmode e root nd
      else if call = SET_TRIMPOLICY then rpc_set_trimpolicy e root nd
      else if call = ECHO_REQUEST then rpc_echo_request e root addr nd
      else if call = ECHO_REPLY then Inr (nd, [])
      else if call = SET_NETWORK_IGNORE_LIST then rpc_set_network_ignore_list e root nd
      else rpc_default e root meth nd)"

section \<open>Receiving\<close>

definition ProcessIPPacket :: "byte list \<Rightarrow> nat \<Rightarrow> node \<Rightarrow> node step" where
  "ProcessIPPacket mem len nd =
     sbind (SendToTap (drop kTincanHeaderSize mem) (size_sub len kTincanHeaderSize) (nd_plane nd))
       (\<lambda>(r, p). Inr (nd\<lparr>nd_plane := p\<rparr>, []))"

text \<open>
  \<open>std::string message(data, 2, len)\<close>: the first argument is converted to a string, up to its first
  zero byte, and at most \<open>len\<close> characters are taken from the offset 2 on.
\<close>

definition control_text :: "byte list \<Rightarrow> nat \<Rightarrow> string result" where
  "control_text mem len = sbind (c_str mem) (\<lambda>s. str_substr s 2 len)"

definition kParseError :: string where
  "kParseError = ''{'' @ [CHR 0x22] @ ''error'' @ [CHR 0x22] @ '':'' @ [CHR 0x22] @ ''json parsing failed'' @
     [CHR 0x22] @ ''}''"

definition HandleControl :: "env \<Rightarrow> byte list \<Rightarrow> nat \<Rightarrow> sockaddr \<Rightarrow> node \<Rightarrow> node step" where
  "HandleControl e mem len addr nd =
     sbind (control_text mem len) (\<lambda>message.
       let (ok, root) = j_parse (e_json e) message;
           result = (if ok then [] else kParseError)
       in sbind (get_string (e_json e) root ''m'') (\<lambda>meth.
         let (call, calls) = map_index (ct_rpc_calls (nd_ctl nd)) meth 0;
             nd = nd\<lparr>nd_ctl := (nd_ctl nd)\<lparr>ct_rpc_calls := calls\<rparr>\<rparr>
         in ebind (rpc_switch e call meth root addr nd) (\<lambda>nd.
           Inr (nd, if result = [] then []
                    else SendTo (e_jg e) (e_junk e) (bytes_of_string result) addr))))"

text \<open>
  \<open>HandlePacket\<close>: \<open>mem\<close> is the receive buffer, its first \<open>len\<close> bytes the datagram from \<open>addr\<close>. A wrong
  version and an unknown type are only logged.
\<close>

definition ControllerAccess_HandlePacket ::
  "env \<Rightarrow> byte list \<Rightarrow> nat \<Rightarrow> sockaddr \<Rightarrow> node \<Rightarrow> node step" where
  "ControllerAccess_HandlePacket e mem len addr nd =
     sbind (mem_byte mem 0) (\<lambda>version.
     sbind (mem_byte mem 1) (\<lambda>type.
       if type = kTincanPacket then ProcessIPPacket mem len nd
       else if type = kICCControl \<or> type = kICCPacket
       then sbind (DoPacketSend (drop 2 mem) (size_sub len 2) (nd_plane nd)) (\<lambda>(r, p, es).
         Inr (nd\<lparr>nd_plane := p\<rparr>, es))
       else HandleControl e mem len addr nd))"

section \<open>The senders\<close>

lemma SendTo_network: "length (SendTo jg junk data addr) \<le> 1 \<and> list_all is_network (SendTo jg junk data addr)"
  by (auto simp: SendTo_def Let_def split: family.splits)

lemma SendTo_event:
  "UdpSend s b a \<in> set (SendTo jg junk data addr) \<longleftrightarrow>
     a = addr \<and> b = kIpopVer # kTincanControl # data \<and>
     addr_family jg addr = (case s of Sock4 \<Rightarrow> AF_INET | Sock6 \<Rightarrow> AF_INET6)"
  by (cases s) (auto simp: SendTo_def Let_def split: family.splits)

interpretation ctl_sender: signal_sender "ControllerAccess_SendToPeer e" "\<lambda>c. c" for e
  by unfold_locales (use SendTo_network in \<open>auto simp: ControllerAccess_SendToPeer_def SendJson_def\<close>)

interpretation services: signal_sender "service_call e svc" "\<lambda>c. c" for e svc
proof unfold_locales
  fix ov uid data type c c' es
  assume s: "service_call e svc ov uid data type c = Inr (c', es)"
  show "length es \<le> 1 \<and> list_all is_network es"
    using s ctl_sender.send_network xmpp_sender.send_network
    by (cases svc) (fastforce simp: service_call_def ebind_eq_Inr)+
  show "c' = c"
    using s ctl_sender.send_frame xmpp_sender.send_frame
    by (cases svc) (fastforce simp: service_call_def ebind_eq_Inr)+
qed

interpretation dispatcher: signal_sender "PeerSignalSender_SendToPeer (service_call e)" "\<lambda>s. s" for e
proof unfold_locales
  fix ov uid data type and s s' :: "service_map \<times> ctl" and es
  assume "PeerSignalSender_SendToPeer (service_call e) ov uid data type s = Inr (s', es)"
  then obtain svc where "fst s' = fst s" "service_call e svc ov uid data type (snd s) = Inr (snd s', es)"
    by (cases s; cases s') (auto simp: dispatch_eq_Inr)
  then show "length es \<le> 1 \<and> list_all is_network es" "s' = s"
    using services.send_network services.send_frame by (auto simp: prod_eq_iff)
qed

section \<open>Replies\<close>

text \<open>Every datagram goes to \<open>addr\<close>, as a control message, on the socket of the address's family.\<close>

definition replies :: "jingle \<Rightarrow> sockaddr \<Rightarrow> io_event list \<Rightarrow> bool" where
  "replies jg addr es \<longleftrightarrow> (\<forall>s b a. UdpSend s b a \<in> set es \<longrightarrow> a = addr \<and>
     (\<exists>payload. b = kIpopVer # kTincanControl # payload) \<and>
     addr_family jg addr = (case s of Sock4 \<Rightarrow> AF_INET | Sock6 \<Rightarrow> AF_INET6))"

lemma replies_append [simp]: "replies jg addr (es @ es') \<longleftrightarrow> replies jg addr es \<and> replies jg addr es'"
  unfolding replies_def set_append by blast

lemma replies_simps [simp]:
  "replies jg addr []" "replies jg addr (SendTo jg junk data addr)" "replies (e_jg e) addr (SendJson e j addr)"
  by (auto simp: replies_def SendTo_event SendJson_def)

lemma replies_no_datagram: "(\<And>s b a. UdpSend s b a \<notin> set es) \<Longrightarrow> replies jg addr es"
  by (simp add: replies_def)

lemma CreateTransport_events: "CreateTransport jg now t ch uid a m = (b, m', es) \<Longrightarrow> UdpSend s d x \<notin> set es"
  by (auto simp: CreateTransport_def create_build_def Let_def split: if_splits prod.splits option.splits)

lemma rpc_link_replies:
  "rpc_create_link e root nd = Inr (nd', es) \<Longrightarrow> replies jg addr es"
  "rpc_trim_link e root nd = Inr (nd', es) \<Longrightarrow> replies jg addr es"
proof -
  assume "rpc_create_link e root nd = Inr (nd', es)"
  then obtain uid a b m es1 where c: "CreateTransport (e_jg e) (e_now e) (e_new_t e) (e_new_ch e) uid a
      (nd_mgr nd) = (b, m, es1)"
    and "es = es1 \<or> (\<exists>cas b' m' es2. CreateConnections (e_jg e) uid cas m = Inr (b', m', es2) \<and> es = es1 @ es2)"
    unfolding rpc_create_link_def sbind_eq_Inr by (fastforce split: prod.splits if_splits simp: tincan_simps)
  then show "replies jg addr es"
    using CreateTransport_events [OF c]
    by (intro replies_no_datagram) (auto elim: CreateConnections_cases)
next
  assume "rpc_trim_link e root nd = Inr (nd', es)"
  then show "replies jg addr es"
    by (intro replies_no_datagram)
      (auto simp: rpc_trim_link_def tincan_simps DestroyTransport_def destroy_free_def split: option.splits)
qed

lemma rpc_local_replies:
  "rpc_register_svc e root nd = Inr (nd', es) \<Longrightarrow> replies jg addr es"
  "rpc_set_local_ip e root nd = Inr (nd', es) \<Longrightarrow> replies jg addr es"
  "rpc_set_remote_ip e root nd = Inr (nd', es) \<Longrightarrow> replies jg addr es"
  "rpc_set_cb_endpoint e root from nd = Inr (nd', es) \<Longrightarrow> replies jg addr es"
  "rpc_set_logging e root nd = Inr (nd', es) \<Longrightarrow> replies jg addr es"
  "rpc_set_translation e root nd = Inr (nd', es) \<Longrightarrow> replies jg addr es"
  "rpc_set_switchmode e root nd = Inr (nd', es) \<Longrightarrow> replies jg addr es"
  "rpc_set_trimpolicy e root nd = Inr (nd', es) \<Longrightarrow> replies jg addr es"
  "rpc_set_network_ignore_list e root nd = Inr (nd', es) \<Longrightarrow> replies jg addr es"
  "rpc_default e root meth nd = Inr (nd', es) \<Longrightarrow> replies jg addr es"
  by (rule replies_no_datagram,
      auto simp: rpc_register_svc_def XmppNetwork_Login_def XmppNetwork_Connect_def tincan_simps
        rpc_set_local_ip_def Setup_def rpc_set_remote_ip_def AddIPMapping_def rpc_set_cb_endpoint_def
        rpc_set_logging_def rpc_set_translation_def rpc_set_switchmode_def rpc_set_trimpolicy_def
        rpc_set_network_ignore_list_def set_network_ignore_list_def rpc_default_def XmppNetwork_SendToPeer_def
        TinCanTask_SendToPeer_def Let_def split: if_splits option.splits)+

lemma rpc_answer_replies:
  "rpc_get_state e root addr nd = Inr (nd', es) \<Longrightarrow> replies (e_jg e) addr es"
  "rpc_echo_request e root addr nd = Inr (nd', es) \<Longrightarrow> replies (e_jg e) addr es"
proof -
  have "replies (e_jg e) addr (concat (map (\<lambda>(k, peer). SendJson e (f peer) addr) xs))"
    for f and xs :: "(string \<times> json) list"
    by (induction xs) auto
  then show "rpc_get_state e root addr nd = Inr (nd', es) \<Longrightarrow> replies (e_jg e) addr es"
    by (auto simp: rpc_get_state_def SendState_def tincan_simps Let_def)
  show "rpc_echo_request e root addr nd = Inr (nd', es) \<Longrightarrow> replies (e_jg e) addr es"
    by (auto simp: rpc_echo_request_def tincan_simps)
qed

lemma rpc_switch_replies:
  "rpc_switch e call meth root addr nd = Inr (nd', es) \<Longrightarrow> replies (e_jg e) addr es"
  unfolding rpc_switch_def
  by (auto split: if_splits dest: rpc_local_replies rpc_link_replies rpc_answer_replies)

section \<open>Lemmas on received datagrams\<close>

lemma HandlePacket_ip:
  assumes "msg_type mem = Inr kTincanPacket" and "msg_payload mem len = Inr data"
  shows "ControllerAccess_HandlePacket e mem len addr nd =
    Inr (nd\<lparr>nd_plane := (nd_plane nd)\<lparr>g_recv_queue := wq_add data (g_recv_queue (nd_plane nd))\<rparr>\<rparr>, [])"
  using assms
  by (auto simp: ControllerAccess_HandlePacket_def msg_type_def msg_payload_def mem_byte_def ProcessIPPacket_def
      SendToTap_def offset_consts split: if_splits)

lemma HandlePacket_icc:
  assumes "msg_type mem = Inr type" and "type \<in> {kICCControl, kICCPacket}" and "msg_payload mem len = Inr data"
    and "g_manager (nd_plane nd)"
  shows "ControllerAccess_HandlePacket e mem len addr nd =
    Inr (nd\<lparr>nd_plane := (nd_plane nd)\<lparr>g_send_queue := wq_add data (g_send_queue (nd_plane nd)),
      pl_signals := pl_signals (nd_plane nd) + 1\<rparr>\<rparr>, [PostQueueSignal])"
proof -
  have "type \<noteq> kTincanPacket"
    using assms(2) by (auto simp: type_consts)
  then show ?thesis
    using assms
    by (auto simp: ControllerAccess_HandlePacket_def msg_type_def msg_payload_def mem_byte_def DoPacketSend_def
        offset_consts split: if_splits)
qed

lemma HandlePacket_control:
  assumes "2 \<le> length mem" and "mem ! 1 \<notin> {kTincanPacket, kICCControl, kICCPacket}"
  shows "ControllerAccess_HandlePacket e mem len addr nd = HandleControl e mem len addr nd"
  using assms by (auto simp: ControllerAccess_HandlePacket_def mem_byte_def)

lemma HandleControl_cases:
  assumes "HandleControl e mem len addr nd = Inr (nd', es)"
  obtains message ok root meth call calls es1 es2
  where "control_text mem len = Inr message" and "j_parse (e_json e) message = (ok, root)"
    and "get_string (e_json e) root ''m'' = Inr meth"
    and "map_index (ct_rpc_calls (nd_ctl nd)) meth 0 = (call, calls)"
    and "rpc_switch e call meth root addr (nd\<lparr>nd_ctl := (nd_ctl nd)\<lparr>ct_rpc_calls := calls\<rparr>\<rparr>) = Inr (nd', es1)"
    and "es = es1 @ es2"
    and "es2 = (if ok then [] else SendTo (e_jg e) (e_junk e) (bytes_of_string kParseError) addr)"
proof -
  obtain message where m: "control_text mem len = Inr message"
    using assms by (auto simp: HandleControl_def tincan_simps)
  obtain ok root where r: "j_parse (e_json e) message = (ok, root)"
    by (cases "j_parse (e_json e) message")
  obtain meth where t: "get_string (e_json e) root ''m'' = Inr meth"
    using assms m r by (auto simp: HandleControl_def tincan_simps Let_def)
  obtain call calls where c: "map_index (ct_rpc_calls (nd_ctl nd)) meth 0 = (call, calls)"
    by (cases "map_index (ct_rpc_calls (nd_ctl nd)) meth 0")
  have "kParseError \<noteq> []"
    by (simp add: kParseError_def)
  then obtain es1 where
    "rpc_switch e call meth root addr (nd\<lparr>nd_ctl := (nd_ctl nd)\<lparr>ct_rpc_calls := calls\<rparr>\<rparr>) = Inr (nd', es1)"
    "es = es1 @ (if ok then [] else SendTo (e_jg e) (e_junk e) (bytes_of_string kParseError) addr)"
    using assms m r t c by (cases ok) (auto simp: HandleControl_def ebind_eq_Inr)
  with that m r t c show ?thesis by blast
qed

lemma HandleControl_switch:
  assumes "HandleControl e mem len addr nd = Inr (nd', es)"
  obtains call meth root nd1 es1 es2
  where "rpc_switch e call meth root addr nd1 = Inr (nd', es1)" and "es = es1 @ es2"
    and "es2 = [] \<or> es2 = SendTo (e_jg e) (e_junk e) (bytes_of_string kParseError) addr"
  using assms
proof (cases rule: HandleControl_cases)
  case (1 message ok root meth call calls es1 es2)
  then show ?thesis using that [of call meth root] by (cases ok) auto
qed

lemma forwarded_frame:
  assumes "HandlePacket jg ts junk data m = Inr [UdpSend s frame dst]"
  shows "\<exists>type. frame = build_msg junk (Some type) data"
proof -
  have "frame \<in> {build_msg junk (forward_type data) data, build_msg junk (Some kTincanPacket) data}"
    using assms by (auto simp: HandlePacket_def forward_def Let_def tincan_simps split: if_splits option.splits)
  then show ?thesis
    by (cases "forward_type data") auto
qed

lemma takeWhile_no_zero:
  "0 \<notin> set xs \<Longrightarrow> takeWhile (\<lambda>b. b \<noteq> 0) (xs @ ys) = xs @ takeWhile (\<lambda>b. b \<noteq> (0 :: byte)) ys"
  by (subst takeWhile_append2) auto

lemma bytes_no_zero: "CHR 0x00 \<notin> set s \<Longrightarrow> 0 \<notin> set (bytes_of_string s)"
proof
  assume "CHR 0x00 \<notin> set s" and "0 \<in> set (bytes_of_string s)"
  then obtain c where c: "c \<in> set s" "word_of_nat (of_char c) = (0 :: byte)"
    by (auto simp: bytes_of_string_def)
  have "of_char c = (0 :: nat)"
    using unat_of_char [of c] c(2) by simp
  then have "c = char_of (0 :: nat)"
    by (metis char_of_char)
  moreover have "char_of (0 :: nat) = CHR 0x00"
    by code_simp
  ultimately have "c = CHR 0x00" by simp
  with c(1) \<open>CHR 0x00 \<notin> set s\<close> show False by simp
qed

section \<open>A concrete controller\<close>

text \<open>A JSON library that parses every text to \<open>root\<close>, for the witnesses.\<close>

definition demo_json :: "json \<Rightarrow> json_api" where
  "demo_json root = \<lparr>j_parse = (\<lambda>_. (True, root)),
     j_member = (\<lambda>j k. Some (case jget j k of Some v \<Rightarrow> v | None \<Rightarrow> JNull)),
     j_is_member = (\<lambda>j k. jget j k \<noteq> None),
     j_as_string = (\<lambda>j. case j of JStr s \<Rightarrow> Some s | JNull \<Rightarrow> Some [] | _ \<Rightarrow> None),
     j_as_int = (\<lambda>j. case j of JInt i \<Rightarrow> Some i | JNull \<Rightarrow> Some 0 | _ \<Rightarrow> None),
     j_as_bool = (\<lambda>j. case j of JBool b \<Rightarrow> Some b | JNull \<Rightarrow> Some False | _ \<Rightarrow> None),
     j_size = (\<lambda>j. case j of JArr l \<Rightarrow> length l | _ \<Rightarrow> 0), j_is_array = (\<lambda>j. case j of JArr l \<Rightarrow> True | _ \<Rightarrow> False),
     j_index = (\<lambda>j i. case j of JArr l \<Rightarrow> l ! i | _ \<Rightarrow> JNull), j_styled = (\<lambda>_. ''json'')\<rparr>"

definition demo_env :: "json \<Rightarrow> env" where
  "demo_env root = \<lparr>e_jg = jingle0, e_json = demo_json root, e_jid = jid_api0, e_ts = demo_ts True,
     e_stats = (\<lambda>_. []), e_now = 0, e_clocks = (\<lambda>_. (0, 0)), e_junk = (\<lambda>_. 0), e_debug = True,
     e_tap = (\<lambda>_. 0), e_new_t = TRef 5, e_new_ch = 6\<rparr>"

lemma demo_env_simps [simp]:
  "e_jg (demo_env root) = jingle0" "e_json (demo_env root) = demo_json root"
  "e_jid (demo_env root) = jid_api0" "e_ts (demo_env root) = demo_ts True"
  "e_stats (demo_env root) = (\<lambda>_. [])" "e_now (demo_env root) = 0" "e_junk (demo_env root) = (\<lambda>_. 0)"
  "e_new_t (demo_env root) = TRef 5" "e_new_ch (demo_env root) = 6"
  by (simp_all add: demo_env_def)

definition demo_node :: node where
  "demo_node = ControllerAccess_new 5800 [0, 0x69, 0x70, 0x6f, 0x70, 1] (xnet_new XMPP_NONE 0)
     (plane_new demo_linked True)"

definition demo_controller :: sockaddr where
  "demo_controller = \<lparr>sa_host = ''::1'', sa_port = 5801\<rparr>"

lemma demo_family [simp]: "addr_family jingle0 demo_controller = AF_INET6"
  by (simp add: jingle0_def demo_controller_def)

section \<open>Properties\<close>

text \<open>
  Claim C16. What the manager forwards to the controller and the controller relays to another node
  arrives there unchanged: handed back to \<open>HandlePacket\<close> of a controller access, whatever the buffer
  holds behind it, a forwarded tincan packet is appended to the receive queue of ipop-tap and an
  inter-controller message to the send queue, byte for byte the packet that was routed, and nothing
  is answered.
\<close>

theorem controller_relay_round_trip:
  assumes "HandlePacket jg ts junk data m = Inr [UdpSend s frame dst]" and "length data + 2 < 2 ^ 64"
    and "g_manager (nd_plane nd)"
  shows "\<exists>type. frame = kIpopVer # type # data \<and>
    (type = kTincanPacket \<longrightarrow>
       ControllerAccess_HandlePacket e (frame @ stale) (length frame) addr nd =
         Inr (nd\<lparr>nd_plane := (nd_plane nd)\<lparr>g_recv_queue := wq_add data (g_recv_queue (nd_plane nd))\<rparr>\<rparr>, [])) \<and>
    (type \<in> {kICCControl, kICCPacket} \<longrightarrow>
       (\<exists>p. ControllerAccess_HandlePacket e (frame @ stale) (length frame) addr nd =
          Inr (nd\<lparr>nd_plane := p\<rparr>, [PostQueueSignal]) \<and>
        m_queue (g_send_queue p) = m_queue (g_send_queue (nd_plane nd)) @ [data]))"
proof -
  obtain type where f: "frame = build_msg junk (Some type) data"
    using forwarded_frame [OF assms(1)] by blast
  then have "length frame < 2 ^ 64"
    using assms(2) by simp
  then have p: "msg_payload (frame @ stale) (length frame) = Inr data"
    unfolding f by (rule msg.dec_payload_encode)
  have t: "msg_type (frame @ stale) = Inr type"
    unfolding f by (rule msg.dec_type_encode)
  show ?thesis
    using f t HandlePacket_ip [OF _ p] HandlePacket_icc [OF t _ p assms(3)] by (auto simp: wq.contents_add)
qed

theorem controller_relay_round_trip_witness:
  "\<exists>nd'. ControllerAccess_HandlePacket (demo_env JNull) (kIpopVer # kTincanPacket # replicate 40 0 @ [7] @ [9, 9])
      43 demo_controller demo_node = Inr (nd', []) \<and>
    m_queue (g_recv_queue (nd_plane nd')) = [replicate 40 0 @ [7]]"
proof -
  have "HandlePacket jingle0 (demo_ts False) (\<lambda>_. 9) (replicate 40 0 @ [7]) demo_linked =
      Inr [UdpSend Sock6 (kIpopVer # kTincanPacket # replicate 40 0 @ [7]) sa_nil]"
    using HandlePacket_eq [of "replicate 40 0 @ [7]" jingle0 "demo_ts False" "\<lambda>_. 9" demo_linked]
    by (simp add: demo_zero_packet demo_linked_def demo_ts_def kHeaderSize_def demo_mgr_def mgr_new_def)
  moreover have "g_manager (nd_plane demo_node)"
    by (simp add: demo_node_def ControllerAccess_new_def plane_new_def)
  ultimately show ?thesis
    using controller_relay_round_trip [of jingle0 "demo_ts False" "\<lambda>_. 9" "replicate 40 0 @ [7]" demo_linked
        Sock6 "kIpopVer # kTincanPacket # replicate 40 0 @ [7]" sa_nil demo_node "demo_env JNull" "[9, 9]"
        demo_controller]
    by (simp add: demo_node_def ControllerAccess_new_def plane_new_def wq_new_def wq_add_def)
qed

text \<open>
  The text of a control message is not cut at the end of the datagram: it is the payload
  followed by at most two characters of what the receive buffer holds behind it, up to the first zero
  byte. So the text is exactly the payload when a zero byte follows it.
\<close>

theorem controller_message_text:
  assumes "CHR 0x00 \<notin> set payload" and "0 \<in> set stale"
  shows "control_text (kIpopVer # kTincanControl # bytes_of_string payload @ stale) (length payload + 2) =
      Inr (payload @ string_of_bytes (take 2 (takeWhile (\<lambda>b. b \<noteq> 0) stale))) \<and>
    (control_text (kIpopVer # kTincanControl # bytes_of_string payload @ stale) (length payload + 2) =
      Inr payload \<longleftrightarrow> hd stale = 0)"
proof -
  let ?hd = "string_of_bytes [kIpopVer, kTincanControl]"
  let ?tl = "takeWhile (\<lambda>b. b \<noteq> 0) stale"
  have "0 \<notin> set (kIpopVer # kTincanControl # bytes_of_string payload)"
    using bytes_no_zero [OF assms(1)] by (simp add: kIpopVer_def kTincanControl_def)
  from takeWhile_no_zero [OF this, of stale]
  have "c_str (kIpopVer # kTincanControl # bytes_of_string payload @ stale) =
      Inr (string_of_bytes (kIpopVer # kTincanControl # bytes_of_string payload @ ?tl))"
    using assms(2) by (simp add: c_str_def)
  moreover have "string_of_bytes (kIpopVer # kTincanControl # bytes_of_string payload @ ?tl) =
      ?hd @ payload @ string_of_bytes ?tl"
    using string_of_bytes_of_string [of payload] by (simp add: string_of_bytes_def)
  ultimately have message: "control_text (kIpopVer # kTincanControl # bytes_of_string payload @ stale)
      (length payload + 2) = Inr (payload @ string_of_bytes (take 2 ?tl))"
    by (simp add: control_text_def str_substr_def string_of_bytes_def take_map)
  moreover have "take 2 ?tl = [] \<longleftrightarrow> hd stale = 0"
    using assms(2) by (cases stale) auto
  ultimately show ?thesis
    by (auto simp: string_of_bytes_def)
qed

theorem controller_message_text_witness:
  "control_text (kIpopVer # kTincanControl # bytes_of_string ''{}'' @ [0x7d, 0x22, 0x20, 0])
      (length ''{}'' + 2) = Inr (''{}}'' @ [CHR 0x22])"
proof -
  have "string_of_bytes (take 2 (takeWhile (\<lambda>b. b \<noteq> 0) [0x7d, 0x22, 0x20, 0])) = [CHR ''}'', CHR 0x22]"
    by code_simp
  with controller_message_text [of "''{}''" "[0x7d, 0x22, 0x20, 0]"] show ?thesis by simp
qed

text \<open>
  Claim C23. The controller access answers only the one who asked: whatever datagram it handles, every
  datagram it sends while handling it goes to the sender's address, over the socket of that address's
  family, behind the version byte and the type of a control message.
\<close>

theorem controller_answers_sender:
  assumes "ControllerAccess_HandlePacket e mem len addr nd = Inr (nd', es)" and "UdpSend s b a \<in> set es"
  shows "a = addr \<and> (\<exists>payload. b = kIpopVer # kTincanControl # payload) \<and>
    addr_family (e_jg e) addr = (case s of Sock4 \<Rightarrow> AF_INET | Sock6 \<Rightarrow> AF_INET6)"
proof -
  have "replies (e_jg e) addr es" if h: "HandleControl e mem len addr nd = Inr (nd', es)"
  proof -
    obtain call meth root nd1 es1 es2
      where sw: "rpc_switch e call meth root addr nd1 = Inr (nd', es1)" and es: "es = es1 @ es2"
        and es2: "es2 = [] \<or> es2 = SendTo (e_jg e) (e_junk e) (bytes_of_string kParseError) addr"
      using h by (rule HandleControl_switch)
    from rpc_switch_replies [OF sw] es es2 show ?thesis by auto
  qed
  then have "replies (e_jg e) addr es"
    using assms(1)
    by (auto simp: ControllerAccess_HandlePacket_def tincan_simps ProcessIPPacket_def DoPacketSend_def Let_def
        replies_def split: if_splits)
  with assms(2) show ?thesis
    unfolding replies_def by blast
qed

lemma demo_control:
  "ControllerAccess_HandlePacket (demo_env root) [3, 1, 0x7d, 0] 3 addr nd =
     HandleControl (demo_env root) [3, 1, 0x7d, 0] 3 addr nd"
  by (rule HandlePacket_control) (simp_all add: type_consts)

lemma demo_text: "control_text [3, 1, 0x7d, 0] 3 = Inr ''}''"
  by code_simp

lemma rpc_table_init:
  "init_map Map.empty meth = map_of rpc_table meth"
  by (simp add: init_map_def rpc_table_def)

lemma demo_rpc_calls [simp]: "ct_rpc_calls (nd_ctl demo_node) = init_map Map.empty"
  by (simp add: demo_node_def ControllerAccess_new_def)

lemma demo_handle:
  assumes "get_string (demo_json root) root ''m'' = Inr meth" and "map_of rpc_table meth = Some call"
    and "ct_rpc_calls (nd_ctl nd) = init_map Map.empty"
  shows "ControllerAccess_HandlePacket (demo_env root) [3, 1, 0x7d, 0] 3 addr nd =
    rpc_switch (demo_env root) call meth root addr nd"
proof -
  have "map_index (ct_rpc_calls (nd_ctl nd)) meth 0 = (call, ct_rpc_calls (nd_ctl nd))"
    using assms(2,3) rpc_table_init by simp
  moreover have "j_parse (demo_json root) ''}'' = (True, root)"
    by (simp add: demo_json_def)
  moreover have "ebind m (\<lambda>nd. Inr (nd, [])) = m" for m :: "node step"
    by (cases m) auto
  ultimately show ?thesis
    using assms(1) demo_text by (simp add: demo_control HandleControl_def)
qed

theorem controller_answers_sender_witness:
  "\<exists>nd' b. ControllerAccess_HandlePacket
      (demo_env (JObj [(''m'', JStr ''echo_request''), (''msg'', JStr ''hi'')])) [3, 1, 0x7d, 0] 3
      demo_controller demo_node = Inr (nd', [UdpSend Sock6 (kIpopVer # kTincanControl # b) demo_controller])"
proof -
  let ?root = "JObj [(''m'', JStr ''echo_request''), (''msg'', JStr ''hi'')]"
  have g: "get_string (demo_json ?root) ?root ''m'' = Inr ''echo_request''"
    "get_string (demo_json ?root) ?root ''msg'' = Inr ''hi''"
    by (simp_all add: get_string_def demo_json_def jget_def)
  have m: "map_of rpc_table ''echo_request'' = Some ECHO_REQUEST"
    by (simp add: rpc_table_def)
  obtain b where h: "ControllerAccess_HandlePacket (demo_env ?root) [3, 1, 0x7d, 0] 3 demo_controller demo_node =
      Inr (demo_node, [UdpSend Sock6 b demo_controller])"
    using g(2) demo_family
    unfolding demo_handle [OF g(1) m demo_rpc_calls]
    by (simp add: rpc_switch_def rpc_codes rpc_echo_request_def SendJson_def SendTo_def)
  from controller_answers_sender [OF h] obtain p where "b = kIpopVer # kTincanControl # p"
    by auto
  with h show ?thesis by blast
qed

text \<open>
  The version of a message is not enforced: a datagram is handled in the same way whatever
  its version byte is, as long as it is not zero.
\<close>

theorem controller_version_ignored:
  assumes "v \<noteq> 0" and "w \<noteq> 0"
  shows "ControllerAccess_HandlePacket e (v # rest) len addr nd =
    ControllerAccess_HandlePacket e (w # rest) len addr nd"
proof -
  have c: "c_str (x # rest) = sbind (c_str rest) (\<lambda>s. Inr (char_of (unat x) # s))" if "x \<noteq> 0" for x
    using that by (auto simp: c_str_def string_of_bytes_def)
  have "control_text (v # rest) len = control_text (w # rest) len"
    unfolding control_text_def c [OF assms(1)] c [OF assms(2)]
    by (cases "c_str rest") (simp_all add: str_substr_def numeral_2_eq_2)
  then have "HandleControl e (v # rest) len addr nd = HandleControl e (w # rest) len addr nd"
    by (simp add: HandleControl_def)
  then show ?thesis
    by (simp add: ControllerAccess_HandlePacket_def mem_byte_def ProcessIPPacket_def kTincanHeaderSize_def
        numeral_2_eq_2)
qed

theorem controller_version_ignored_witness:
  "ControllerAccess_HandlePacket (demo_env JNull) (99 # kTincanPacket # [1, 2, 3]) 5 demo_controller demo_node =
   Inr (demo_node\<lparr>nd_plane := (nd_plane demo_node)\<lparr>g_recv_queue := wq_add [1, 2, 3] wq_new\<rparr>\<rparr>, [])"
proof -
  have "(99 :: byte) \<noteq> 0" "kIpopVer \<noteq> 0"
    by (simp_all add: kIpopVer_def)
  note ver = controller_version_ignored [OF this, of "demo_env JNull" "kTincanPacket # [1, 2, 3]" 5
      demo_controller demo_node]
  have "msg_type (kIpopVer # kTincanPacket # [1, 2, 3]) = Inr kTincanPacket"
    "msg_payload (kIpopVer # kTincanPacket # [1, 2, 3]) 5 = Inr [1, 2, 3]"
    by (simp_all add: msg_type_def msg_payload_def mem_byte_def mem_read_def size_sub_ge offset_consts)
  from HandlePacket_ip [OF this, of "demo_env JNull" demo_controller demo_node] ver
  have "ControllerAccess_HandlePacket (demo_env JNull) (99 # kTincanPacket # [1, 2, 3]) 5 demo_controller demo_node =
    Inr (demo_node\<lparr>nd_plane := (nd_plane demo_node)\<lparr>g_recv_queue :=
      wq_add [1, 2, 3] (g_recv_queue (nd_plane demo_node))\<rparr>\<rparr>, [])"
    by (rule trans [rotated])
  moreover have "g_recv_queue (nd_plane demo_node) = wq_new"
    by (simp add: demo_node_def ControllerAccess_new_def plane_new_def)
  ultimately show ?thesis by simp
qed





text \<open>
  A request whose method is not in the table is a message for a peer: it goes over XMPP,
  with the method as its type, to the peer the request names when that peer has been seen and the
  network is online, and is dropped without a word otherwise. The table gets an entry for the
  method, which changes nothing for later requests.
\<close>

theorem rpc_unknown_forwarded:
  assumes "control_text mem len = Inr message" and "j_parse (e_json e) message = (True, root)"
    and "get_string (e_json e) root ''m'' = Inr meth" and "map_of rpc_table meth = None"
    and "ct_rpc_calls (nd_ctl nd) meth \<in> {None, Some 0}"
    and "get_int (e_json e) root ''overlay_id'' = Inr ov" and "get_string (e_json e) root ''uid'' = Inr uid"
    and "get_string (e_json e) root ''data'' = Inr data"
  shows "\<exists>nd'. HandleControl e mem len addr nd = Inr (nd',
      case xn_uid_map (ct_net (nd_ctl nd)) uid of
        Some jid \<Rightarrow> if xn_state (ct_net (nd_ctl nd)) = XMPP_OPEN \<and> xn_tincan_task (ct_net (nd_ctl nd))
          then [XmppSend jid data meth] else []
      | None \<Rightarrow> []) \<and>
    ct_rpc_calls (nd_ctl nd') = (ct_rpc_calls (nd_ctl nd))(meth \<mapsto> 0) \<and>
    nd_plane nd' = nd_plane nd \<and> ct_net (nd_ctl nd') = ct_net (nd_ctl nd)"
proof -
  have mi: "map_index (ct_rpc_calls (nd_ctl nd)) meth 0 = (0, (ct_rpc_calls (nd_ctl nd))(meth \<mapsto> 0))"
    using assms(5) by (cases "ct_rpc_calls (nd_ctl nd) meth") (auto simp: map_index_def)
  let ?nd = "nd\<lparr>nd_ctl := (nd_ctl nd)\<lparr>ct_rpc_calls := (ct_rpc_calls (nd_ctl nd))(meth \<mapsto> 0)\<rparr>\<rparr>"
  have sw: "rpc_switch e 0 meth root addr ?nd = rpc_default e root meth ?nd"
    by (simp add: rpc_switch_def rpc_codes)
  have net: "ct_net (nd_ctl ?nd) = ct_net (nd_ctl nd)" by simp
  show ?thesis
    using assms(1-3,6-8) mi sw
    by (auto simp: HandleControl_def rpc_default_def XmppNetwork_SendToPeer_def TinCanTask_SendToPeer_def
        set_net_def split: option.splits)
qed

theorem rpc_unknown_forwarded_witness:
  "\<exists>nd nd'. ControllerAccess_HandlePacket
      (demo_env (JObj [(''m'', JStr ''con_req''), (''uid'', JStr demo_key), (''data'', JStr ''fpr'')]))
      [3, 1, 0x7d, 0] 3 demo_controller nd = Inr (nd', [XmppSend demo_jid ''fpr'' ''con_req''])"
proof -
  let ?root = "JObj [(''m'', JStr ''con_req''), (''uid'', JStr demo_key), (''data'', JStr ''fpr'')]"
  let ?net = "demo_net\<lparr>xn_uid_map := [demo_key \<mapsto> demo_jid]\<rparr>"
  let ?nd = "set_net ?net demo_node"
  have "control_text [3, 1, 0x7d, 0] 3 = Inr ''}''" "j_parse (e_json (demo_env ?root)) ''}'' = (True, ?root)"
    "get_string (e_json (demo_env ?root)) ?root ''m'' = Inr ''con_req''"
    using demo_text by (simp_all add: demo_json_def get_string_def jget_def)
  moreover have "map_of rpc_table ''con_req'' = None"
    by (simp add: rpc_table_def)
  moreover from this have "ct_rpc_calls (nd_ctl ?nd) ''con_req'' \<in> {None, Some 0}"
    using rpc_table_init by simp
  moreover have "get_int (e_json (demo_env ?root)) ?root ''overlay_id'' = Inr 0"
    "get_string (e_json (demo_env ?root)) ?root ''uid'' = Inr demo_key"
    "get_string (e_json (demo_env ?root)) ?root ''data'' = Inr ''fpr''"
    by (simp_all add: demo_json_def get_string_def get_int_def jget_def)
  ultimately obtain nd' where "HandleControl (demo_env ?root) [3, 1, 0x7d, 0] 3 demo_controller ?nd =
      Inr (nd', case xn_uid_map (ct_net (nd_ctl ?nd)) demo_key of
        Some jid \<Rightarrow> if xn_state (ct_net (nd_ctl ?nd)) = XMPP_OPEN \<and> xn_tincan_task (ct_net (nd_ctl ?nd))
          then [XmppSend jid ''fpr'' ''con_req''] else []
      | None \<Rightarrow> [])"
    using rpc_unknown_forwarded by blast
  then show ?thesis
    by (auto simp: demo_control demo_net_def xnet_new_def)
qed

end
