(* ===== verification/Node.thy ===== *)
theory Node
  imports Controller
begin

text \<open>
  A running node: the manager, the controller access and the XMPP network wired as \<open>main\<close> of
  \<open>src/tincan.cc\<close> wires them, the steps its threads take, the invariant they keep and what follows
  from it for every run.
\<close>

section \<open>The wiring\<close>

text \<open>
  The signalling services of the manager are reached through \<open>PeerSignalSender\<close> with the two
  registrations of \<open>main\<close>; the state behind it is that of the controller access.
\<close>

abbreviation node_send :: "env \<Rightarrow> (service_map \<times> ctl) sender" where
  "node_send e \<equiv> PeerSignalSender_SendToPeer (service_call e)"

text \<open>A slot of the manager that uses the services, as a step of the node.\<close>

definition with_services ::
  "(mgr \<times> service_map \<times> ctl \<Rightarrow> (mgr \<times> service_map \<times> ctl) step) \<Rightarrow> node \<Rightarrow> node step" where
  "with_services f nd =
     ebind (f (nd_mgr nd, main_services, nd_ctl nd)) (\<lambda>(m, sm, c). Inr (set_mgr m (nd\<lparr>nd_ctl := c\<rparr>), []))"

text \<open>
  \<open>XmppNetwork::DoHandlePeer\<close> emits the signal \<open>HandlePeer\<close>, connected to the slot of the manager.
\<close>

fun DoHandlePeers :: "env \<Rightarrow> peer_message list \<Rightarrow> node \<Rightarrow> node step" where
  "DoHandlePeers e [] nd = Inr (nd, [])"
| "DoHandlePeers e ((uid, data, type) # ms) nd =
     ebind (with_services (HandlePeer (node_send e) uid data type) nd) (DoHandlePeers e ms)"

definition node_ProcessStart :: "env \<Rightarrow> string \<Rightarrow> node \<Rightarrow> node step" where
  "node_ProcessStart e own nd =
     sbind (TinCanTask_ProcessStart (e_jid e) own (e_now e) (ct_net (nd_ctl nd))) (\<lambda>(r, net, ms).
       DoHandlePeers e ms (set_net net nd))"

section \<open>Steps\<close>

text \<open>
  Datagrams from the controller (\<open>new\<close> returns an address in use by no transport); the signals of
  the live transports; the packet path; the XMPP stanzas and the other events of the XMPP network.
\<close>

inductive node_step :: "env \<Rightarrow> node \<Rightarrow> node \<Rightarrow> bool" where
  ns_datagram: "ControllerAccess_HandlePacket e mem len addr nd = Inr (nd', es) \<Longrightarrow>
    e_new_t e \<notin> live (nd_mgr nd) \<Longrightarrow> node_step e nd nd'"
| ns_candidates: "t \<in> live (nd_mgr nd) \<Longrightarrow> OnCandidatesReady (e_jg e) tap t cs (nd_mgr nd) = Inr m \<Longrightarrow>
    node_step e nd (set_mgr m nd)"
| ns_allocation_done: "t \<in> live (nd_mgr nd) \<Longrightarrow>
    with_services (OnCandidatesAllocationDone (node_send e) t) nd = Inr (nd', es) \<Longrightarrow> node_step e nd nd'"
| ns_rw_change: "t \<in> live (nd_mgr nd) \<Longrightarrow>
    with_services (OnRWChangeState (node_send e) (e_ts e) t) nd = Inr (nd', es) \<Longrightarrow> node_step e nd nd'"
| ns_packets: "pl_step (e_jg e) (nd_plane nd) p \<Longrightarrow> pl_mgr p = nd_mgr nd \<Longrightarrow>
    node_step e nd (nd\<lparr>nd_plane := p\<rparr>)"
| ns_stanza: "xn_tincan_task (ct_net (nd_ctl nd)) \<Longrightarrow> node_ProcessStart e own nd = Inr (nd', es) \<Longrightarrow>
    node_step e nd nd'"
| ns_xmpp: "xn_step (e_jid e) (e_jg e) own (ct_net (nd_ctl nd)) net \<Longrightarrow>
    node_step e nd (set_net net nd)"

inductive_cases node_stepE: "node_step e nd nd'"

definition node_start :: "u64 \<Rightarrow> string \<Rightarrow> int \<Rightarrow> byte list \<Rightarrow> xmpp_state \<Rightarrow> int \<Rightarrow> node" where
  "node_start random tapname port mac st counter =
     ControllerAccess_new port mac (xnet_new st counter) (plane_new (mgr_new random tapname) True)"

text \<open>\<open>main\<close> may give the manager another address before the threads start.\<close>

definition node_set_ip :: "string \<Rightarrow> node \<Rightarrow> node" where
  "node_set_ip ip nd = set_mgr (set_ip ip (nd_mgr nd)) nd"

inductive node_reachable :: "node \<Rightarrow> bool" where
  nr_start: "node_reachable (node_set_ip ip (node_start random tapname port mac st counter))"
| nr_step: "node_reachable nd \<Longrightarrow> node_step e nd nd' \<Longrightarrow> node_reachable nd'"

text \<open>Every step of a run may be answered differently from outside.\<close>

definition node_runs :: "node \<Rightarrow> node \<Rightarrow> bool" where
  "node_runs = (\<lambda>nd nd'. \<exists>e. node_step e nd nd')\<^sup>*\<^sup>*"

section \<open>The invariant\<close>

definition rpc_ok :: "(string \<rightharpoonup> int) \<Rightarrow> bool" where
  "rpc_ok calls \<longleftrightarrow> (\<forall>meth. case map_of rpc_table meth of
     Some call \<Rightarrow> calls meth = Some call | None \<Rightarrow> calls meth \<in> {None, Some 0})"

definition node_ok :: "node \<Rightarrow> bool" where
  "node_ok nd \<longleftrightarrow> links_ok (nd_mgr nd) \<and> forward_socket (nd_mgr nd) = Some Sock6 \<and>
     forward_addr (nd_mgr nd) = ct_remote_addr (nd_ctl nd) \<and> g_manager (nd_plane nd) \<and>
     signals_ok (nd_plane nd) \<and> xn_inv (ct_net (nd_ctl nd)) \<and>
     omap_ok (xn_presence_time (ct_net (nd_ctl nd))) \<and> rpc_ok (ct_rpc_calls (nd_ctl nd))"

text \<open>
  How the manager may evolve: the tables stay in order, the forwarding socket stays, an assigned
  address is never changed, and neither is the node's id.
\<close>

definition mgr_evolves :: "mgr \<Rightarrow> mgr \<Rightarrow> bool" where
  "mgr_evolves m m' \<longleftrightarrow> (links_ok m \<longrightarrow> links_ok m') \<and> forward_socket m' = forward_socket m \<and>
     ip_map m \<subseteq>\<^sub>m ip_map m' \<and> (tincan_id m \<noteq> [] \<longrightarrow> tincan_id m' = tincan_id m)"

definition node_evolves :: "node \<Rightarrow> node \<Rightarrow> bool" where
  "node_evolves nd nd' \<longleftrightarrow> (node_ok nd \<longrightarrow> node_ok nd') \<and>
     ip_map (nd_mgr nd) \<subseteq>\<^sub>m ip_map (nd_mgr nd') \<and>
     (tincan_id (nd_mgr nd) \<noteq> [] \<longrightarrow> tincan_id (nd_mgr nd') = tincan_id (nd_mgr nd))"

lemma mgr_evolves_refl [simp]: "mgr_evolves m m"
  by (simp add: mgr_evolves_def)

lemma mgr_evolves_trans: "mgr_evolves m m1 \<Longrightarrow> mgr_evolves m1 m2 \<Longrightarrow> mgr_evolves m m2"
  unfolding mgr_evolves_def by (metis map_le_trans)

lemma node_evolves_refl [simp]: "node_evolves nd nd"
  by (simp add: node_evolves_def)

lemma node_evolves_trans: "node_evolves nd nd1 \<Longrightarrow> node_evolves nd1 nd2 \<Longrightarrow> node_evolves nd nd2"
  unfolding node_evolves_def by (metis map_le_trans)

lemma node_evolves_mgr:
  "mgr_evolves (nd_mgr nd) m \<Longrightarrow> forward_addr m = forward_addr (nd_mgr nd) \<Longrightarrow> node_evolves nd (set_mgr m nd)"
  by (auto simp: mgr_evolves_def node_evolves_def node_ok_def signals_ok_def)

lemma node_evolves_net:
  "(xn_inv (ct_net (nd_ctl nd)) \<Longrightarrow> xn_inv net) \<Longrightarrow>
   (omap_ok (xn_presence_time (ct_net (nd_ctl nd))) \<Longrightarrow> omap_ok (xn_presence_time net)) \<Longrightarrow>
     node_evolves nd (set_net net nd)"
  by (auto simp: node_evolves_def node_ok_def)

section \<open>The operations of the manager\<close>

lemma CreateTransport_evolves:
  assumes "CreateTransport jg now t ch uid a m = (b, m', es)" and "t \<notin> live m"
  shows "mgr_evolves m m' \<and> forward_addr m' = forward_addr m"
  using assms(1)
proof (cases rule: CreateTransport_cases)
  case refused
  then show ?thesis by simp
next
  case created
  then show ?thesis
    using links_ok_CreateTransport [OF _ assms(2,1)] by (simp add: mgr_evolves_def)
qed

lemma CreateConnections_evolves:
  assumes "CreateConnections jg uid cas m = Inr (b, m', es)"
  shows "mgr_evolves m m' \<and> forward_addr m' = forward_addr m"
  using assms
proof (cases rule: CreateConnections_cases)
  case refused
  then show ?thesis by simp
next
  case (connected ps cs)
  then show ?thesis
    using links_ok_CreateConnections [OF _ assms] by (simp add: mgr_evolves_def)
qed

lemma DestroyTransport_evolves:
  assumes "DestroyTransport uid m = (b, m', es)"
  shows "mgr_evolves m m' \<and> forward_addr m' = forward_addr m"
proof (cases "uid_map m uid")
  case None
  then show ?thesis using assms by (simp add: DestroyTransport_absent)
next
  case (Some ps)
  then show ?thesis
    using assms links_ok_DestroyTransport [OF _ assms] by (auto simp: DestroyTransport_present mgr_evolves_def)
qed

lemma AddIPMapping_evolves:
  assumes "AddIPMapping jg uid ip4 ip6 m = (b, m', es)"
  shows "mgr_evolves m m' \<and> forward_addr m' = forward_addr m"
proof -
  have "snd (add_ips jg uid (ip4, ip6) m) = m'"
    using assms by (simp add: add_ips_def)
  then have "ip_map m \<subseteq>\<^sub>m ip_map m'"
    using ips.add_keeps [of m _ _ jg uid "(ip4, ip6)"] by (force simp: map_le_def dom_def)
  moreover have "forward_socket m' = forward_socket m" "forward_addr m' = forward_addr m" "tincan_id m' = tincan_id m"
    using assms by (auto simp: AddIPMapping_def split: if_splits)
  ultimately show ?thesis
    using links_ok_AddIPMapping [OF assms] by (simp add: mgr_evolves_def)
qed

lemma Setup_evolves:
  assumes "Setup jg debug tap uid ip4 k4 ip6 k6 sm sw m = Inr (m', es)"
  shows "mgr_evolves m m' \<and> forward_addr m' = forward_addr m"
  using assms links_ok_Setup [OF assms]
  by (auto simp: Setup_def mgr_evolves_def Let_def split: if_splits option.splits)

lemma OnCandidatesReady_evolves:
  assumes "links_ok m" and "t \<in> live m" and "OnCandidatesReady jg tap t cs m = Inr m'"
  shows "mgr_evolves m m' \<and> forward_addr m' = forward_addr m"
proof -
  obtain uid ps where "transport_map m t = Some uid" "uid_map m uid = Some ps"
    using links_ok_registered [OF assms(1,2)] by blast
  then show ?thesis
    using assms links_ok_OnCandidatesReady [OF assms] by (auto simp: OnCandidatesReady_registered mgr_evolves_def)
qed

section \<open>The calls of the controller\<close>

lemma surjective3: "p = (fst p, fst (snd p), snd (snd p))"
  by simp

lemma rpc_register_evolves:
  assumes "rpc_register_svc e root nd = Inr (nd', es)"
  shows "node_evolves nd nd'"
proof -
  from assms obtain u p pc h port where
      "nd' = set_net (fst (snd (XmppNetwork_Login (e_jid e) (e_jg e) u p pc h port (ct_net (nd_ctl nd))))) nd"
    by (auto simp: rpc_register_svc_def tincan_simps case_prod_beta Let_def)
  then obtain b net es1 where l: "XmppNetwork_Login (e_jid e) (e_jg e) u p pc h port
      (ct_net (nd_ctl nd)) = (b, net, es1)" and nd': "nd' = set_net net nd"
    by (metis prod.collapse)
  have "xn_presence_time net = xn_presence_time (ct_net (nd_ctl nd))"
    using l by (auto simp: XmppNetwork_Login_def XmppNetwork_Connect_def split: if_splits)
  moreover have "xn_inv (ct_net (nd_ctl nd)) \<Longrightarrow> xn_inv net"
    using xn_inv_step [OF xn_step.login [OF l]] .
  ultimately show ?thesis
    unfolding nd' by (intro node_evolves_net) simp_all
qed

lemma rpc_create_link_evolves:
  assumes "rpc_create_link e root nd = Inr (nd', es)" and "e_new_t e \<notin> live (nd_mgr nd)"
  shows "node_evolves nd nd'"
proof -
  from assms(1) obtain uid a b m es1 where c: "CreateTransport (e_jg e) (e_now e) (e_new_t e) (e_new_ch e) uid a
      (nd_mgr nd) = (b, m, es1)"
    and "nd' = set_mgr m nd \<or>
      (\<exists>cas b' m' es2. CreateConnections (e_jg e) uid cas m = Inr (b', m', es2) \<and> nd' = set_mgr m' nd)"
    unfolding rpc_create_link_def sbind_eq_Inr by (fastforce split: prod.splits if_splits simp: tincan_simps)
  then consider "nd' = set_mgr m nd"
    | cas b' m' es2 where "CreateConnections (e_jg e) uid cas m = Inr (b', m', es2)" "nd' = set_mgr m' nd"
    by blast
  then show ?thesis
  proof cases
    case 1
    then show ?thesis
      using CreateTransport_evolves [OF c assms(2)] by (simp add: node_evolves_mgr)
  next
    case 2
    then show ?thesis
      using CreateTransport_evolves [OF c assms(2)] CreateConnections_evolves [OF 2(1)]
      by (auto intro: node_evolves_mgr mgr_evolves_trans)
  qed
qed

lemma rpc_mgr_evolves:
  "rpc_set_local_ip e root nd = Inr (nd', es) \<Longrightarrow> node_evolves nd nd'"
  "rpc_set_remote_ip e root nd = Inr (nd', es) \<Longrightarrow> node_evolves nd nd'"
  "rpc_trim_link e root nd = Inr (nd', es) \<Longrightarrow> node_evolves nd nd'"
  "rpc_set_trimpolicy e root nd = Inr (nd', es) \<Longrightarrow> node_evolves nd nd'"
  "rpc_set_network_ignore_list e root nd = Inr (nd', es) \<Longrightarrow> node_evolves nd nd'"
proof -
  assume "rpc_set_local_ip e root nd = Inr (nd', es)"
  then show "node_evolves nd nd'"
    unfolding rpc_set_local_ip_def sbind_eq_Inr by (auto dest!: Setup_evolves intro!: node_evolves_mgr)
next
  assume "rpc_set_remote_ip e root nd = Inr (nd', es)"
  then show "node_evolves nd nd'"
    using AddIPMapping_evolves [OF surjective3] unfolding rpc_set_remote_ip_def sbind_eq_Inr
    by (auto intro!: node_evolves_mgr simp: case_prod_beta Let_def)
next
  assume "rpc_trim_link e root nd = Inr (nd', es)"
  then show "node_evolves nd nd'"
    using DestroyTransport_evolves [OF surjective3] unfolding rpc_trim_link_def sbind_eq_Inr
    by (auto intro!: node_evolves_mgr simp: case_prod_beta Let_def)
next
  assume "rpc_set_trimpolicy e root nd = Inr (nd', es)"
  then show "node_evolves nd nd'"
    unfolding rpc_set_trimpolicy_def sbind_eq_Inr
    by (auto intro!: node_evolves_mgr simp: mgr_evolves_def set_trim_connection_def)
next
  assume "rpc_set_network_ignore_list e root nd = Inr (nd', es)"
  then show "node_evolves nd nd'"
    unfolding rpc_set_network_ignore_list_def sbind_eq_Inr
    by (auto intro!: node_evolves_mgr simp: mgr_evolves_def set_network_ignore_list_def tincan_simps Let_def
        split: if_splits)
qed

lemma rpc_endpoint_evolves: "rpc_set_cb_endpoint e root addr nd = Inr (nd', es) \<Longrightarrow> node_evolves nd nd'"
  by (auto simp: rpc_set_cb_endpoint_def tincan_simps node_evolves_def node_ok_def signals_ok_def
      set_forward_addr_def Let_def)

lemma node_evolves_frame [simp]:
  "node_evolves nd (nd\<lparr>nd_ctl := (nd_ctl nd)\<lparr>ct_translate := x\<rparr>\<rparr>)"
  "node_evolves nd (nd\<lparr>nd_ctl := (nd_ctl nd)\<lparr>ct_switchmode := x\<rparr>\<rparr>)"
  "node_evolves nd (set_net (ct_net (nd_ctl nd)) nd)"
  by (simp_all add: node_evolves_def node_ok_def)

lemma rpc_frame_evolves:
  "rpc_get_state e root addr nd = Inr (nd', es) \<Longrightarrow> node_evolves nd nd'"
  "rpc_set_logging e root nd = Inr (nd', es) \<Longrightarrow> node_evolves nd nd'"
  "rpc_set_translation e root nd = Inr (nd', es) \<Longrightarrow> node_evolves nd nd'"
  "rpc_set_switchmode e root nd = Inr (nd', es) \<Longrightarrow> node_evolves nd nd'"
  "rpc_echo_request e root addr nd = Inr (nd', es) \<Longrightarrow> node_evolves nd nd'"
  by (auto simp: rpc_get_state_def rpc_set_logging_def rpc_set_translation_def rpc_set_switchmode_def
      rpc_echo_request_def tincan_simps)

lemma rpc_default_evolves: "rpc_default e root meth nd = Inr (nd', es) \<Longrightarrow> node_evolves nd nd'"
  by (auto simp: rpc_default_def tincan_simps dest: xmpp_sender.send_frame)

lemmas rpc_evolves = rpc_register_evolves rpc_create_link_evolves rpc_mgr_evolves rpc_endpoint_evolves
  rpc_frame_evolves rpc_default_evolves

lemma rpc_switch_evolves:
  "rpc_switch e call meth root addr nd = Inr (nd', es) \<Longrightarrow> e_new_t e \<notin> live (nd_mgr nd) \<Longrightarrow>
     node_evolves nd nd'"
  unfolding rpc_switch_def
  by (auto split: if_splits dest: rpc_evolves)

lemma rpc_ok_index:
  assumes "rpc_ok calls" and "map_index calls meth 0 = (call, calls')"
  shows "rpc_ok calls' \<and> call = (case map_of rpc_table meth of Some c \<Rightarrow> c | None \<Rightarrow> 0)"
proof -
  have m: "case map_of rpc_table meth of Some call \<Rightarrow> calls meth = Some call
      | None \<Rightarrow> calls meth \<in> {None, Some 0}"
    using assms(1) by (simp add: rpc_ok_def)
  show ?thesis
  proof (cases "calls meth")
    case None
    then have t: "map_of rpc_table meth = None"
      using m by (cases "map_of rpc_table meth") auto
    have "rpc_ok (calls(meth \<mapsto> 0))"
      unfolding rpc_ok_def
    proof
      fix x
      show "case map_of rpc_table x of Some call \<Rightarrow> (calls(meth \<mapsto> 0)) x = Some call
          | None \<Rightarrow> (calls(meth \<mapsto> 0)) x \<in> {None, Some 0}"
        using assms(1) [unfolded rpc_ok_def, rule_format, of x] t
        by (cases "x = meth"; cases "map_of rpc_table x") auto
    qed
    then show ?thesis
      using None assms(2) t by auto
  next
    case (Some c)
    then show ?thesis
      using m assms by (cases "map_of rpc_table meth") auto
  qed
qed

lemma HandlePacket_evolves:
  assumes "ControllerAccess_HandlePacket e mem len addr nd = Inr (nd', es)" and "e_new_t e \<notin> live (nd_mgr nd)"
  shows "node_evolves nd nd'"
proof -
  have "node_evolves nd nd'" if h: "HandleControl e mem len addr nd = Inr (nd', es)"
    using h
  proof (cases rule: HandleControl_cases)
    case (1 message ok root meth call calls es1 es2)
    let ?nd = "nd\<lparr>nd_ctl := (nd_ctl nd)\<lparr>ct_rpc_calls := calls\<rparr>\<rparr>"
    have "node_evolves nd ?nd"
      using rpc_ok_index [OF _ 1(4)] by (simp add: node_evolves_def node_ok_def)
    moreover have "node_evolves ?nd nd'"
      using rpc_switch_evolves [OF 1(5)] assms(2) by simp
    ultimately show ?thesis by (rule node_evolves_trans)
  qed
  then show ?thesis
    using assms(1)
    by (auto simp: ControllerAccess_HandlePacket_def tincan_simps ProcessIPPacket_def SendToTap_def
        DoPacketSend_def Let_def node_evolves_def node_ok_def signals_ok_def wq.contents_add split: if_splits)
qed

section \<open>Every step\<close>

text \<open>A slot that only sends leaves the node as it is.\<close>

lemma with_services_send:
  assumes "with_services f nd = Inr (nd', es)"
    and "f (nd_mgr nd, main_services, nd_ctl nd) =
      ebind (node_send e ov uid data type (main_services, nd_ctl nd)) (\<lambda>s. Inr ((nd_mgr nd, s), es1))"
  shows "nd' = nd"
proof -
  from assms(1) obtain s1 e1 where 1: "node_send e ov uid data type (main_services, nd_ctl nd) = Inr (s1, e1)"
    and nd': "nd' = set_mgr (nd_mgr nd) (nd\<lparr>nd_ctl := snd s1\<rparr>)"
    unfolding with_services_def assms(2) ebind_eq_Inr by auto
  have "s1 = (main_services, nd_ctl nd)"
    using dispatcher.send_frame [OF 1] .
  then show ?thesis
    unfolding nd' by (simp add: set_mgr_def)
qed

lemma HandlePeer_same:
  assumes "with_services (HandlePeer (node_send e) uid data type) nd = Inr (nd', es)"
  shows "nd' = nd"
  by (rule with_services_send [OF assms]) (simp add: HandlePeer_def)

lemma OnRWChangeState_same:
  assumes "node_ok nd" and "t \<in> live (nd_mgr nd)"
    and "with_services (OnRWChangeState (node_send e) ts t) nd = Inr (nd', es)"
  shows "nd' = nd"
proof -
  have "links_ok (nd_mgr nd)"
    using assms(1) by (simp add: node_ok_def)
  from OnRWChangeState_registered [OF this assms(2), of "node_send e" ts "(main_services, nd_ctl nd)"]
  obtain uid and ps :: peer_state
    where "OnRWChangeState (node_send e) ts t (nd_mgr nd, main_services, nd_ctl nd) =
      ebind (node_send e 0 uid (link_status ts t) kConStat (main_services, nd_ctl nd)) (\<lambda>s. Inr ((nd_mgr nd, s),
        if link_status ts t = ''online'' then map PortConnect (ch_ports ts (ps_channel ps)) else []))"
    by blast
  then show ?thesis
    by (rule with_services_send [OF assms(3)])
qed

lemma OnCandidatesAllocationDone_same:
  assumes "node_ok nd" and "t \<in> live (nd_mgr nd)"
    and "with_services (OnCandidatesAllocationDone (node_send e) t) nd = Inr (nd', es)"
  shows "nd' = nd"
proof -
  have "links_ok (nd_mgr nd)"
    using assms(1) by (simp add: node_ok_def)
  from links_ok_registered [OF this assms(2)] obtain uid and ps :: peer_state
    where "transport_map (nd_mgr nd) t = Some uid" "uid_map (nd_mgr nd) uid = Some ps"
    by blast
  from OnCandidatesAllocationDone_registered [OF this] show ?thesis
    by (rule with_services_send [OF assms(3)])
qed

text \<open>The messages of a stanza are a sequence of calls of the dispatcher.\<close>

lemma HandlePeer_send:
  assumes "with_services (HandlePeer (node_send e) uid data type) nd = Inr (nd', es)"
  shows "node_send e 0 uid data type (main_services, nd_ctl nd) = Inr ((main_services, nd_ctl nd), es)"
proof -
  from assms obtain s1 where 1: "node_send e 0 uid data type (main_services, nd_ctl nd) = Inr (s1, es)"
    by (auto simp: with_services_def HandlePeer_def kLocalControllerId_def tincan_simps)
  from dispatcher.send_frame [OF this] 1 show ?thesis by simp
qed

lemma DoHandlePeers_send_all:
  "DoHandlePeers e ms nd = Inr (nd', es) \<Longrightarrow> nd' = nd \<and>
     send_all (node_send e) (map (\<lambda>(uid, data, type).
       \<lparr>sg_overlay = 0, sg_uid = uid, sg_data = data, sg_type = type\<rparr>) ms) (main_services, nd_ctl nd) =
     Inr ((main_services, nd_ctl nd), es)"
proof (induction ms arbitrary: es)
  case Nil
  then show ?case by simp
next
  case (Cons x ms)
  obtain uid data type where x: "x = (uid, data, type)" by (cases x)
  from Cons.prems x obtain nd1 e1 e2 where
    1: "with_services (HandlePeer (node_send e) uid data type) nd = Inr (nd1, e1)"
    and 2: "DoHandlePeers e ms nd1 = Inr (nd', e2)" and es: "es = e1 @ e2"
    by (auto simp: ebind_eq_Inr)
  from HandlePeer_same [OF 1] Cons.IH [of e2] 2 HandlePeer_send [OF 1] x es show ?case
    by simp
qed

lemma DoHandlePeers_sends:
  "DoHandlePeers e ms nd = Inr (nd', es) \<Longrightarrow> nd' = nd \<and> length es \<le> length ms \<and> list_all is_network es"
  using DoHandlePeers_send_all dispatcher.send_all_frame by fastforce

lemma pl_step_g_manager: "pl_step jg p p' \<Longrightarrow> g_manager p' = g_manager p"
proof (induction rule: pl_step.induct)
  case (pl_signal p ts junk i p' es)
  then show ?case using OnMessage_signal by fastforce
qed (auto simp: DoPacketSend_def OnReadPacket_def DoPacketRecv_def SendToTap_def tincan_simps Let_def
    split: if_splits option.splits)

lemma node_step_evolves:
  assumes "node_step e nd nd'" and "node_ok nd"
  shows "node_evolves nd nd'"
  using assms
proof (induction rule: node_step.induct)
  case (ns_datagram e mem len addr nd nd' es)
  then show ?case by (blast intro: HandlePacket_evolves)
next
  case (ns_candidates t nd e tap cs m)
  then show ?case
    using OnCandidatesReady_evolves [of "nd_mgr nd" t] by (auto simp: node_ok_def intro: node_evolves_mgr)
next
  case (ns_allocation_done t nd e nd' es)
  then show ?case using OnCandidatesAllocationDone_same by fastforce
next
  case (ns_rw_change t nd e nd' es)
  then show ?case using OnRWChangeState_same by fastforce
next
  case (ns_packets e nd p)
  then show ?case
    using signals_ok_step pl_step_g_manager by (auto simp: node_evolves_def node_ok_def)
next
  case (ns_stanza nd e own nd' es)
  then obtain r net ms where p: "TinCanTask_ProcessStart (e_jid e) own (e_now e) (ct_net (nd_ctl nd)) = Inr (r, net, ms)"
    and d: "DoHandlePeers e ms (set_net net nd) = Inr (nd', es)"
    by (auto simp: node_ProcessStart_def tincan_simps)
  show ?case
    unfolding DoHandlePeers_sends [OF d, THEN conjunct1]
    using ProcessStart_inv [OF p] ProcessStart_presence [OF p] by (intro node_evolves_net) simp_all
next
  case (ns_xmpp e own nd net)
  then show ?case
    using xn_inv_step presence_step by (blast intro: node_evolves_net)
qed

lemma node_start_ok: "node_ok (node_set_ip ip (node_start random tapname port mac st counter))"
proof -
  have "rpc_ok (init_map Map.empty)"
    using rpc_table_init by (auto simp: rpc_ok_def split: option.splits)
  then show ?thesis
    by (simp add: node_ok_def node_set_ip_def set_ip_def node_start_def ControllerAccess_new_def plane_new_def
        set_forward_socket_def set_mgr_def links_ok_new signals_ok_def xn_inv_def xnet_new_def)
      (simp add: mgr_new_def)
qed

lemma reachable_ok: "node_reachable nd \<Longrightarrow> node_ok nd"
proof (induction rule: node_reachable.induct)
  case nr_start
  show ?case by (rule node_start_ok)
next
  case (nr_step nd e nd')
  then show ?case
    using node_step_evolves unfolding node_evolves_def by blast
qed

lemma runs_evolve: "node_runs nd nd' \<Longrightarrow> node_ok nd \<Longrightarrow> node_evolves nd nd' \<and> node_ok nd'"
  unfolding node_runs_def
proof (induction rule: rtranclp_induct)
  case base
  then show ?case by simp
next
  case (step nd1 nd2)
  then have 1: "node_evolves nd nd1" "node_ok nd1"
    by blast+
  with step(2) have "node_evolves nd1 nd2"
    using node_step_evolves by blast
  with 1 show ?case
    using node_evolves_trans unfolding node_evolves_def by blast
qed

lemma OnMessage_total:
  assumes "links_ok (pl_mgr p)" and "forward_socket (pl_mgr p) = Some s" and "signals_ok p" and "0 < pl_signals p"
  shows "\<exists>r. OnMessage jg ts junk kMsgQueueSignal p = Some (Inr r)"
proof -
  obtain packet q where q: "wq_remove (g_send_queue p) = Some (packet, q)"
    using assms(3,4) wq.remove_None [of "g_send_queue p"]
    by (cases "wq_remove (g_send_queue p)") (auto simp: signals_ok_def)
  obtain es where "HandlePacket jg ts junk packet (pl_mgr p) = Inr es"
    using HandlePacket_total [OF assms(1,2)] by blast
  with q show ?thesis
    by (simp add: OnMessage_def HandleQueueSignal_w_def)
qed

lemma with_services_total:
  assumes "f (nd_mgr nd, main_services, nd_ctl nd) =
      ebind (node_send e ov uid data type (main_services, nd_ctl nd)) (\<lambda>s. Inr ((nd_mgr nd, s), es1))"
    and "\<exists>r. node_send e ov uid data type (main_services, nd_ctl nd) = Inr r"
  shows "\<exists>es. with_services f nd = Inr (nd, es)"
proof -
  obtain s1 e1 where 1: "node_send e ov uid data type (main_services, nd_ctl nd) = Inr (s1, e1)"
    using assms(2) by auto
  from dispatcher.send_frame [OF this] 1 show ?thesis
    unfolding with_services_def assms(1) by (simp add: set_mgr_def)
qed

lemma controller_send_total: "\<exists>r. node_send e 0 uid data type (main_services, c) = Inr r"
  by (simp add: dispatch_registered service_call_def ControllerAccess_SendToPeer_def)

lemma xmpp_send_total: "\<exists>r. node_send e 1 uid data type (main_services, c) = Inr r"
  by (auto simp: dispatch_registered service_call_def XmppNetwork_SendToPeer_def TinCanTask_SendToPeer_def
      split: option.splits)

section \<open>A concrete run\<close>

definition demo_start :: node where
  "demo_start = node_set_ip kIpv4 (node_start 5 ''ipop'' 5800 [0, 1, 2, 3, 4, 5] XMPP_NONE 0)"

lemma demo_start_reachable: "node_reachable demo_start"
  unfolding demo_start_def by (rule nr_start)

lemma demo_start_plane:
  "nd_plane demo_start = plane_new (set_forward_socket Sock6 (mgr_new 5 ''ipop'')) True"
  "ct_rpc_calls (nd_ctl demo_start) = init_map Map.empty"
  by (simp_all add: demo_start_def node_set_ip_def set_ip_def set_mgr_def node_start_def ControllerAccess_new_def
      plane_new_def set_forward_socket_def mgr_new_def)

text \<open>One packet sent by ipop-tap.\<close>

definition demo_sent :: node where
  "demo_sent = demo_start\<lparr>nd_plane := (nd_plane demo_start)\<lparr>g_send_queue := wq_add [7] wq_new, pl_signals := 1\<rparr>\<rparr>"

lemma demo_sent_step: "node_step e demo_start demo_sent"
proof -
  have "DoPacketSend [7] 1 (nd_plane demo_start) = Inr (1, nd_plane demo_sent, [PostQueueSignal])"
    by (simp add: demo_sent_def demo_start_plane plane_new_def DoPacketSend_def mem_read_def)
  then have "pl_step (e_jg e) (nd_plane demo_start) (nd_plane demo_sent)"
    by (rule pl_send)
  then have "node_step e demo_start (demo_start\<lparr>nd_plane := nd_plane demo_sent\<rparr>)"
    by (rule ns_packets) (simp add: demo_sent_def)
  then show ?thesis
    by (simp add: demo_sent_def)
qed

text \<open>A link created by a request of the controller.\<close>

definition demo_link_root :: json where
  "demo_link_root = JObj [(''m'', JStr ''create_link''), (''uid'', JStr (demo_uid (CHR ''1''))), (''overlay_id'', JInt 1)]"

lemma demo_link_step:
  "\<exists>nd es. node_step (demo_env demo_link_root) demo_start nd \<and> TRef 5 \<in> live (nd_mgr nd) \<and>
    ControllerAccess_HandlePacket (demo_env demo_link_root) [3, 1, 0x7d, 0] 3 demo_controller demo_start = Inr (nd, es)"
proof -
  let ?r = demo_link_root
  have g: "get_string (demo_json ?r) ?r ''m'' = Inr ''create_link''"
    "get_string (demo_json ?r) ?r ''uid'' = Inr (demo_uid (CHR ''1''))"
    "get_int (demo_json ?r) ?r ''overlay_id'' = Inr 1"
    "get_string (demo_json ?r) ?r ''fpr'' = Inr []" "get_string (demo_json ?r) ?r ''stun'' = Inr []"
    "get_string (demo_json ?r) ?r ''turn'' = Inr []" "get_string (demo_json ?r) ?r ''turn_user'' = Inr []"
    "get_string (demo_json ?r) ?r ''turn_pass'' = Inr []" "get_string (demo_json ?r) ?r ''cas'' = Inr []"
    "get_bool (demo_json ?r) ?r ''sec'' = Inr False"
    by (simp_all add: demo_link_root_def get_string_def get_int_def get_bool_def demo_json_def jget_def)
  have t: "map_of rpc_table ''create_link'' = Some CREATE_LINK"
    by (simp add: rpc_table_def)
  have m: "uid_map (nd_mgr demo_start) = Map.empty" "tincan_id (nd_mgr demo_start) = []"
    "live (nd_mgr demo_start) = {}"
    by (simp_all add: demo_start_plane plane_new_def set_forward_socket_def mgr_new_def)
  have u: "tincan_id (nd_mgr demo_start) \<noteq> demo_uid (CHR ''1'')"
    using length_demo_uid m(2) by (metis list.size(3) zero_neq_numeral)
  obtain es where c: "CreateTransport jingle0 0 (TRef 5) 6 (demo_uid (CHR ''1''))
      \<lparr>la_fingerprint = [], la_overlay_id = 1, la_stun_server = [], la_turn_server = [], la_turn_user = [],
       la_turn_pass = [], la_sec_enabled = False\<rparr> (nd_mgr demo_start) = (True, (nd_mgr demo_start)
      \<lparr>live := {TRef 5}, uid_map := [demo_uid (CHR ''1'') \<mapsto> created_peer jingle0 0 (TRef 5) 6 (demo_uid (CHR ''1''))
         \<lparr>la_fingerprint = [], la_overlay_id = 1, la_stun_server = [], la_turn_server = [], la_turn_user = [],
          la_turn_pass = [], la_sec_enabled = False\<rparr> (nd_mgr demo_start)],
       transport_map := (transport_map (nd_mgr demo_start))(TRef 5 \<mapsto> demo_uid (CHR ''1'')),
       short_uid_map := (short_uid_map (nd_mgr demo_start))(sub_uid (demo_uid (CHR ''1'')) \<mapsto> TRef 5)\<rparr>, es)"
    using CreateTransport_new [of "nd_mgr demo_start" "demo_uid (CHR ''1'')" jingle0 0 "TRef 5" 6
        "\<lparr>la_fingerprint = [], la_overlay_id = 1, la_stun_server = [], la_turn_server = [], la_turn_user = [],
          la_turn_pass = [], la_sec_enabled = False\<rparr>"] m(1) u m(3) by auto
  have "\<exists>nd es. ControllerAccess_HandlePacket (demo_env ?r) [3, 1, 0x7d, 0] 3 demo_controller demo_start = Inr (nd, es) \<and>
      TRef 5 \<in> live (nd_mgr nd)"
    unfolding demo_handle [OF g(1) t demo_start_plane(2)]
    by (simp add: rpc_switch_def rpc_codes rpc_create_link_def g c)
  then show ?thesis
    using ns_datagram [of "demo_env ?r"] m(3) by fastforce
qed

section \<open>Properties\<close>

text \<open>
  Claim C9. In every run of a node the link tables are in order: each link owns a live transport that the
  transport table leads back from, every shortened id leads to the transport of a link with that
  id, and every live transport belongs to a link; the manager always has the socket it forwards on,
  and forwards to the very address the signalling messages of the controller access go to.
\<close>

theorem node_tables_in_order:
  assumes "node_reachable nd"
  shows "(\<forall>uid ps. uid_map (nd_mgr nd) uid = Some ps \<longrightarrow> ps_uid ps = uid \<and>
      ps_transport ps \<in> live (nd_mgr nd) \<and> transport_map (nd_mgr nd) (ps_transport ps) = Some uid) \<and>
    (\<forall>sub t. short_uid_map (nd_mgr nd) sub = Some t \<longrightarrow>
      (\<exists>uid ps. uid_map (nd_mgr nd) uid = Some ps \<and> ps_transport ps = t \<and> sub_uid uid = sub)) \<and>
    (\<forall>t \<in> live (nd_mgr nd). \<exists>uid ps. uid_map (nd_mgr nd) uid = Some ps \<and> ps_transport ps = t) \<and>
    forward_socket (nd_mgr nd) = Some Sock6 \<and> forward_addr (nd_mgr nd) = ct_remote_addr (nd_ctl nd)"
  using reachable_ok [OF assms] unfolding node_ok_def links_ok_def tables_ok_def by blast

theorem node_tables_in_order_witness:
  "forward_socket (nd_mgr demo_sent) = Some Sock6 \<and> forward_addr (nd_mgr demo_sent) = ct_remote_addr (nd_ctl demo_sent)"
  using node_tables_in_order [OF nr_step [OF demo_start_reachable demo_sent_step]] by blast

text \<open>
  Claim C10. In every run the packet path is safe: no packet from ipop-tap and no packet from a channel,
  whatever its bytes, ever makes the node call through a null pointer or a destroyed transport, and a
  pending signal never finds the send queue empty.
\<close>

theorem node_packets_safe:
  assumes "node_reachable nd"
  shows "(\<exists>es. HandlePacket jg ts junk data (nd_mgr nd) = Inr es) \<and>
    (\<exists>p. OnReadPacket jg ts ch data (nd_plane nd) = Inr p) \<and>
    (0 < pl_signals (nd_plane nd) \<longrightarrow>
      (\<exists>r. OnMessage jg ts junk kMsgQueueSignal (nd_plane nd) = Some (Inr r)))"
proof -
  have "links_ok (nd_mgr nd)" "forward_socket (nd_mgr nd) = Some Sock6" "signals_ok (nd_plane nd)"
    using reachable_ok [OF assms] by (simp_all add: node_ok_def)
  then show ?thesis
    using HandlePacket_total OnReadPacket_total OnMessage_total by blast
qed

theorem node_packets_safe_witness:
  "\<exists>r. OnMessage jingle0 (demo_ts True) (\<lambda>_. 0) kMsgQueueSignal (nd_plane demo_sent) = Some (Inr r)"
  using node_packets_safe [OF nr_step [OF demo_start_reachable demo_sent_step], of jingle0 "demo_ts True" "\<lambda>_. 0"]
  by (simp add: demo_sent_def)

text \<open>
  Claim C11. In every run the signals of a live transport are handled without a fault and change only
  its link: a change of its state is reported to the controller, its candidates are recorded, and the
  end of the allocation is safe when the link was created for overlay 0 or 1.
\<close>

theorem node_signals_safe:
  assumes "node_reachable nd" and "t \<in> live (nd_mgr nd)"
  shows "(\<exists>es. with_services (OnRWChangeState (node_send e) ts t) nd = Inr (nd, es)) \<and>
    (\<exists>m. OnCandidatesReady jg tap t cs (nd_mgr nd) = Inr m) \<and>
    (\<exists>uid ps. uid_map (nd_mgr nd) uid = Some ps \<and> ps_transport ps = t \<and>
      (ps_overlay_id ps \<in> {0, 1} \<longleftrightarrow>
        (\<exists>es. with_services (OnCandidatesAllocationDone (node_send e) t) nd = Inr (nd, es))))"
proof -
  let ?s = "(main_services, nd_ctl nd)"
  have ok: "links_ok (nd_mgr nd)"
    using reachable_ok [OF assms(1)] by (simp add: node_ok_def)
  from links_ok_registered [OF ok assms(2)] obtain uid and ps :: peer_state
    where u: "transport_map (nd_mgr nd) t = Some uid" "uid_map (nd_mgr nd) uid = Some ps" "ps_transport ps = t"
    by blast
  from OnRWChangeState_registered [OF ok assms(2), of "node_send e" ts ?s] obtain v and qs :: peer_state
    where rw: "OnRWChangeState (node_send e) ts t (nd_mgr nd, ?s) =
      ebind (node_send e 0 v (link_status ts t) kConStat ?s) (\<lambda>s. Inr ((nd_mgr nd, s),
        if link_status ts t = ''online'' then map PortConnect (ch_ports ts (ps_channel qs)) else []))"
    by blast
  have 1: "\<exists>es. with_services (OnRWChangeState (node_send e) ts t) nd = Inr (nd, es)"
    using rw controller_send_total by (rule with_services_total)
  have 2: "\<exists>m. OnCandidatesReady jg tap t cs (nd_mgr nd) = Inr m"
    using OnCandidatesReady_registered [OF u(1,2)] by blast
  note fin = OnCandidatesAllocationDone_registered [OF u(1,2), of "node_send e" ?s]
  have "\<exists>es. with_services (OnCandidatesAllocationDone (node_send e) t) nd = Inr (nd, es)"
    if "ps_overlay_id ps \<in> {0, 1}"
  proof -
    have "\<exists>r. node_send e (ps_overlay_id ps) uid d k ?s = Inr r" for d k
      using that controller_send_total xmpp_send_total by auto
    with fin show ?thesis
      by (rule with_services_total)
  qed
  moreover have "with_services (OnCandidatesAllocationDone (node_send e) t) nd = Inl NullDeref"
    if "ps_overlay_id ps \<notin> {0, 1}"
    using that fin by (simp add: with_services_def dispatch_unregistered)
  ultimately have "ps_overlay_id ps \<in> {0, 1} \<longleftrightarrow>
      (\<exists>es. with_services (OnCandidatesAllocationDone (node_send e) t) nd = Inr (nd, es))"
    by fastforce
  with 1 2 u show ?thesis by blast
qed

theorem node_signals_safe_witness:
  "\<exists>nd. node_reachable nd \<and>
    (\<exists>es. with_services (OnRWChangeState (node_send (demo_env JNull)) (demo_ts True) (TRef 5)) nd = Inr (nd, es))"
proof -
  obtain nd where "node_step (demo_env demo_link_root) demo_start nd" and t: "TRef 5 \<in> live (nd_mgr nd)"
    using demo_link_step by blast
  then have "node_reachable nd"
    using demo_start_reachable nr_step by blast
  from node_signals_safe [OF this t, of "demo_env JNull" "demo_ts True"] this show ?thesis by blast
qed

text \<open>
  Claim C12. What the controller has assigned stays assigned: along every run, the addresses mapped to a
  peer never change and are never removed, whatever messages arrive, and neither is the node's id
  once it is set.
\<close>

theorem node_assignments_permanent:
  assumes "node_reachable nd" and "node_runs nd nd'"
  shows "(\<forall>uid ips. ip_map (nd_mgr nd) uid = Some ips \<longrightarrow> ip_map (nd_mgr nd') uid = Some ips) \<and>
    (tincan_id (nd_mgr nd) \<noteq> [] \<longrightarrow> tincan_id (nd_mgr nd') = tincan_id (nd_mgr nd))"
proof -
  have "node_evolves nd nd'"
    using runs_evolve [OF assms(2) reachable_ok [OF assms(1)]] by blast
  then show ?thesis
    unfolding node_evolves_def map_le_def by (metis domI)
qed

theorem node_assignments_permanent_witness:
  "node_runs demo_start demo_sent \<and> ip_map (nd_mgr demo_sent) = ip_map (nd_mgr demo_start)"
proof -
  have r: "node_runs demo_start demo_sent"
    unfolding node_runs_def using demo_sent_step by blast
  from node_assignments_permanent [OF demo_start_reachable r] r show ?thesis
    by (simp add: demo_sent_def)
qed

text \<open>
  A signalling message from a peer reaches the controller: when a query with both its elements
  comes from another node's client, the node records where the peer can be reached and sends exactly
  one datagram, a control message with the peer's key, the data and the type, to the endpoint the
  controller has set; and nothing at all while no endpoint is set.
\<close>

theorem node_peer_message:
  assumes "xn_stanzas (ct_net (nd_ctl nd)) = st # rest" and "st_query st = Some (Some data, Some type)"
    and "take 6 (jid_resource (e_jid e) (st_from st)) = kXmppPrefix" and "\<not> jid_same (e_jid e) (st_from st) own"
    and "get_key (st_from st) = Inr key"
  shows "\<exists>nd'. node_ProcessStart e own nd = Inr (nd',
      SendJson e (jset_all [(''uid'', JStr key), (''data'', JStr data), (''type'', JStr type)] (JObj []))
        (ct_remote_addr (nd_ctl nd))) \<and>
    xn_uid_map (ct_net (nd_ctl nd')) key = Some (st_from st) \<and> nd_plane nd' = nd_plane nd \<and>
    (addr_family (e_jg e) (ct_remote_addr (nd_ctl nd)) = AF_UNSPEC \<longrightarrow>
      node_ProcessStart e own nd = Inr (nd', []))"
proof -
  let ?net = "(ct_net (nd_ctl nd))\<lparr>xn_stanzas := rest,
    xn_uid_map := (xn_uid_map (ct_net (nd_ctl nd)))(key \<mapsto> st_from st)\<rparr>"
  have p: "TinCanTask_ProcessStart (e_jid e) own (e_now e) (ct_net (nd_ctl nd)) =
      Inr (STATE_START, ?net, [(key, data, type)])"
    using assms by (simp add: TinCanTask_ProcessStart_def str_compare_sub_0 Let_def)
  have "with_services (HandlePeer (node_send e) key data type) (set_net ?net nd) = Inr (set_net ?net nd,
      SendJson e (jset_all [(''uid'', JStr key), (''data'', JStr data), (''type'', JStr type)] (JObj []))
        (ct_remote_addr (nd_ctl nd)))"
    by (simp add: with_services_def HandlePeer_def kLocalControllerId_def dispatch_registered service_call_def
        ControllerAccess_SendToPeer_def set_mgr_def del: jset_all_Cons)
  then have "node_ProcessStart e own nd = Inr (set_net ?net nd,
      SendJson e (jset_all [(''uid'', JStr key), (''data'', JStr data), (''type'', JStr type)] (JObj []))
        (ct_remote_addr (nd_ctl nd)))"
    unfolding node_ProcessStart_def p by (simp del: jset_all_Cons)
  then show ?thesis
    by (intro exI [of _ "set_net ?net nd"]) (simp add: SendJson_def SendTo_def del: jset_all_Cons)
qed

theorem node_peer_message_witness:
  "\<exists>nd nd'. node_ProcessStart (demo_env JNull) ''me'' nd = Inr (nd', []) \<and>
    xn_uid_map (ct_net (nd_ctl nd')) demo_key = Some demo_jid"
proof -
  let ?st = "demo_stanza (Some (Some ''d'', Some ''t''))"
  let ?nd = "set_net (demo_net\<lparr>xn_stanzas := [?st]\<rparr>) demo_start"
  have "xn_stanzas (ct_net (nd_ctl ?nd)) = ?st # []" "st_query ?st = Some (Some ''d'', Some ''t'')"
    "st_from ?st = demo_jid"
    by (simp_all add: demo_stanza_def)
  note st = this
  have "take 6 (jid_resource (e_jid (demo_env JNull)) demo_jid) = kXmppPrefix"
    "\<not> jid_same (e_jid (demo_env JNull)) demo_jid ''me''"
    by (simp_all add: jid_api0_def demo_jid_def kXmppPrefix_def)
  from node_peer_message [OF st(1,2), unfolded st(3), OF this demo_get_key]
  obtain nd' where n: "xn_uid_map (ct_net (nd_ctl nd')) demo_key = Some demo_jid"
    "addr_family (e_jg (demo_env JNull)) (ct_remote_addr (nd_ctl ?nd)) = AF_UNSPEC \<longrightarrow>
      node_ProcessStart (demo_env JNull) ''me'' ?nd = Inr (nd', [])"
    by blast
  have "ct_remote_addr (nd_ctl ?nd) = sa_nil"
    by (simp add: demo_start_def node_set_ip_def node_start_def ControllerAccess_new_def)
  then have "addr_family (e_jg (demo_env JNull)) (ct_remote_addr (nd_ctl ?nd)) = AF_UNSPEC"
    by (simp add: jingle0_def sa_nil_def)
  with n show ?thesis by blast
qed



end
