(* ===== verification/Main_Program.thy ===== *)
theory Main_Program
  imports Node
begin

text \<open>
  \<open>src/tincan.cc\<close>: the command line, the choice of an IPv4 address for the tap device that no
  network interface of the host uses, on the character buffer as the code edits it, and what
  \<open>main\<close> has set up when its threads start (a build for Linux or Android).
\<close>

section \<open>The command line\<close>

definition kUdpPort_default :: int where "kUdpPort_default = 5800"
definition kTapName_default :: string where "kTapName_default = ''ipop''"

text \<open>The globals \<open>kTapName\<close> and \<open>kUdpPort\<close> after \<open>parse_args(argc, args)\<close>.\<close>

definition parse_args :: "string list \<Rightarrow> string \<times> int \<Rightarrow> (string \<times> int) result" where
  "parse_args args opts =
     (if length args = 2 \<and> strncmp_eq (args ! 1) ''-v'' 2 then Inl ExitProcess
      else if length args = 2 \<and> strncmp_eq (args ! 1) ''-h'' 2 then Inl ExitProcess
      else if length args = 3 then sbind (atoi (args ! 2)) (\<lambda>port. Inr (args ! 1, port))
      else Inr opts)"

section \<open>A free network\<close>

text \<open>
  An interface of \<open>getifaddrs\<close>: the family of its address, if it has one, and the numeric host
  \<open>getnameinfo\<close> gives for it, unless that fails.
\<close>

record iface =
  if_family :: "family option"
  if_host :: "string option"

definition NUL :: char where "NUL = CHR 0x00"
definition SEGMENT_SIZE :: nat where "SEGMENT_SIZE = 3"
definition SEGMENT_OFFSET :: nat where "SEGMENT_OFFSET = 4"
definition CMP_SIZE :: nat where "CMP_SIZE = 7"
definition NI_MAXHOST :: nat where "NI_MAXHOST = 1025"

text \<open>The C string a character array holds.\<close>

definition array_str :: "string \<Rightarrow> string" where
  "array_str buf = takeWhile (\<lambda>c. c \<noteq> NUL) buf"

text \<open>\<open>snprintf(buf + off, n, "%d", i)\<close>: at most \<open>n - 1\<close> characters and a zero.\<close>

definition snprintf_int :: "string \<Rightarrow> nat \<Rightarrow> nat \<Rightarrow> int \<Rightarrow> string" where
  "snprintf_int buf off n i = memcpy_at buf off (take (n - 1) (show_int i) @ [NUL])"

text \<open>The body of the loop for an interface with the address \<open>tmp_addr\<close>.\<close>

definition next_segment :: "string \<Rightarrow> string \<Rightarrow> string result" where
  "next_segment tmp_addr ip_addr =
     (if strncmp_eq (array_str ip_addr) tmp_addr CMP_SIZE
      then
        (let segment = take (SEGMENT_SIZE - 1) (drop SEGMENT_OFFSET ip_addr) @ [NUL] in
         sbind (atoi (array_str segment)) (\<lambda>n.
           Inr ((snprintf_int ip_addr SEGMENT_OFFSET SEGMENT_SIZE (n - 1))[CMP_SIZE - 1 := CHR ''.''])))
      else Inr ip_addr)"

fun free_ip_loop :: "iface list \<Rightarrow> string \<Rightarrow> string result" where
  "free_ip_loop [] ip_addr = Inr ip_addr"
| "free_ip_loop (i # ifs) ip_addr =
     (case (if_family i, if_host i) of
        (Some AF_INET, Some tmp_addr) \<Rightarrow> sbind (next_segment tmp_addr ip_addr) (free_ip_loop ifs)
      | _ \<Rightarrow> free_ip_loop ifs ip_addr)"

text \<open>\<open>None\<close> for the interfaces: \<open>getifaddrs\<close> fails.\<close>

definition get_free_network_ip :: "iface list option \<Rightarrow> string \<Rightarrow> (int \<times> string) result" where
  "get_free_network_ip interfaces ip_addr =
     (case interfaces of
        None \<Rightarrow> Inr (-1, ip_addr)
      | Some l \<Rightarrow> sbind (free_ip_loop l ip_addr) (\<lambda>ip_addr. Inr (0, ip_addr)))"

section \<open>main\<close>

text \<open>
  The node when the threads start, \<open>None\<close> when the tap device cannot be opened (\<open>tap\<close> is the file
  descriptor of \<open>tap_open\<close>, \<open>mac\<close> the address it stores).
\<close>

definition main_start ::
  "string list \<Rightarrow> (string \<Rightarrow> int \<times> byte list) \<Rightarrow> u64 \<Rightarrow> xmpp_state \<Rightarrow> int \<Rightarrow> iface list option \<Rightarrow>
   (node option) result" where
  "main_start args tap_open random st counter interfaces =
     sbind (parse_args args (kTapName_default, kUdpPort_default)) (\<lambda>(tapname, port).
       let (tap, mac) = tap_open tapname in
       if tap < 0 then Inr None
       else
         (let nd = node_start random tapname port mac st counter;
              ip4 = tincan_ip4 (nd_mgr nd);
              buf = memcpy_at (replicate NI_MAXHOST NUL) 0 (take NI_MAXHOST ip4)
          in sbind (get_free_network_ip interfaces buf) (\<lambda>(rc, buf).
               Inr (Some (if rc = 0 then node_set_ip (array_str buf) nd else nd)))))"

section \<open>Lemmas\<close>

text \<open>The hosts of the interfaces the loop looks at, and what it should do with the segment.\<close>

fun hosts :: "iface list \<Rightarrow> string list" where
  "hosts [] = []"
| "hosts (i # ifs) =
     (case (if_family i, if_host i) of (Some AF_INET, Some h) \<Rightarrow> h # hosts ifs | _ \<Rightarrow> hosts ifs)"

fun segment_spec :: "string \<Rightarrow> string list \<Rightarrow> nat \<Rightarrow> nat" where
  "segment_spec a [] n = n"
| "segment_spec a (h # hs) n = segment_spec a hs (if take 7 h = a @ show_nat n @ ''.'' then n - 1 else n)"

definition address :: "string \<Rightarrow> nat \<Rightarrow> string \<Rightarrow> string" where
  "address a n b = a @ show_nat n @ ''.'' @ b"

lemma show_nat_two: "10 \<le> n \<Longrightarrow> n < 100 \<Longrightarrow> show_nat n = [digit_char (n div 10), digit_char (n mod 10)]"
  by (simp add: show_nat.simps [of n] show_nat.simps [of "n div 10"])

lemma digit_char_NUL: "d < 10 \<Longrightarrow> digit_char d \<noteq> NUL"
proof
  assume "d < 10" and "digit_char d = NUL"
  then have "(48 + d :: nat) = of_char NUL"
    using of_char_digit_char by metis
  then show False by (simp add: NUL_def)
qed

lemma show_nat_no_NUL: "NUL \<notin> set (show_nat n)"
proof
  assume "NUL \<in> set (show_nat n)"
  then have "is_digit NUL"
    by (rule show_nat_digits)
  then show False
    by (simp add: is_digit_def NUL_def)
qed

lemma address_no_NUL: "NUL \<notin> set a \<Longrightarrow> NUL \<notin> set b \<Longrightarrow> NUL \<notin> set (address a n b)"
  using show_nat_no_NUL [of n] by (auto simp: address_def NUL_def)

lemma array_str_buffer: "NUL \<notin> set s \<Longrightarrow> array_str (s @ NUL # rest) = s"
  unfolding array_str_def by (subst takeWhile_append2) auto

lemma next_segment_buffer:
  assumes "length a = 4" and "NUL \<notin> set a" and "NUL \<notin> set b" and "10 \<le> n" and "n < 100"
  shows "next_segment h (address a n b @ NUL # rest) =
    (if take 7 h = a @ show_nat n @ ''.'' \<and> 11 \<le> n then Inr (address a (n - 1) b @ NUL # rest)
     else if take 7 h = a @ show_nat n @ ''.'' then Inr (a @ ''9'' @ [NUL] @ ''.'' @ b @ NUL # rest)
     else Inr (address a n b @ NUL # rest))"
proof -
  obtain a1 a2 a3 a4 where a: "a = [a1, a2, a3, a4]"
    using assms(1) by (auto simp: eval_nat_numeral length_Suc_conv)
  have n: "show_nat n = [digit_char (n div 10), digit_char (n mod 10)]"
    using assms(4,5) by (rule show_nat_two)
  have d: "n div 10 < 10" "n mod 10 < 10"
    using assms(5) by simp_all
  note nul = digit_char_NUL [OF d(1)] digit_char_NUL [OF d(2)]
  have str: "array_str (address a n b @ NUL # rest) = address a n b"
    using assms(2,3) n nul by (intro array_str_buffer) (auto simp: address_def NUL_def)
  have cmp: "strncmp_eq (address a n b) h 7 \<longleftrightarrow> take 7 h = a @ show_nat n @ ''.''"
    unfolding strncmp_eq_take by (auto simp: address_def a n)
  have seg: "array_str (take 2 (drop 4 (address a n b @ NUL # rest)) @ [NUL]) = show_nat n"
    using array_str_buffer [of "show_nat n" "[]"] n nul by (simp add: address_def a)
  have at: "atoi (show_nat n) = Inr (int n)"
    using assms(5) by simp
  have i: "show_int (int n - 1) = show_nat (n - 1)"
    using assms(4) by (simp add: show_int_def of_nat_diff nat_diff_distrib)
  have "(snprintf_int (address a n b @ NUL # rest) 4 3 (int n - 1))[6 := CHR ''.''] =
      (if 11 \<le> n then address a (n - 1) b @ NUL # rest else a @ ''9'' @ [NUL] @ ''.'' @ b @ NUL # rest)"
  proof (cases "11 \<le> n")
    case True
    then have "show_nat (n - 1) = [digit_char ((n - 1) div 10), digit_char ((n - 1) mod 10)]"
      using assms(5) by (intro show_nat_two) simp_all
    then show ?thesis
      using True by (simp add: snprintf_int_def i memcpy_at_def address_def a n)
  next
    case False
    then have "n - 1 = 9" using assms(4) by simp
    moreover have "show_nat 9 = ''9''"
      by code_simp
    ultimately have "show_nat (n - 1) = ''9''" by simp
    then show ?thesis
      using False by (simp add: snprintf_int_def i memcpy_at_def address_def a n)
  qed
  then show ?thesis
    using cmp seg at str
    by (simp add: next_segment_def CMP_SIZE_def SEGMENT_SIZE_def SEGMENT_OFFSET_def)
qed

lemma free_ip_loop_spec:
  assumes "length a = 4" and "NUL \<notin> set a" and "NUL \<notin> set b"
  shows "10 + length (hosts ifs) \<le> n \<Longrightarrow> n < 100 \<Longrightarrow>
    free_ip_loop ifs (address a n b @ NUL # rest) =
      Inr (address a (segment_spec a (hosts ifs) n) b @ NUL # rest)"
proof (induction ifs arbitrary: n)
  case Nil
  then show ?case by simp
next
  case (Cons i ifs)
  show ?case
  proof (cases "\<exists>h. if_family i = Some AF_INET \<and> if_host i = Some h")
    case True
    then obtain h where i: "if_family i = Some AF_INET" "if_host i = Some h"
      by blast
    have n: "10 \<le> n" "11 \<le> n"
      using Cons.prems(1) i by simp_all
    show ?thesis
      using Cons i n next_segment_buffer [OF assms n(1) Cons.prems(2), of h rest] by auto
  next
    case False
    then show ?thesis
      using Cons by (cases "if_family i"; cases "the (if_family i)"; cases "if_host i") auto
  qed
qed

lemma segment_spec_last:
  "hosts ifs = hs @ [h] \<Longrightarrow> 0 < segment_spec a (hosts ifs) n \<Longrightarrow>
     take 7 h \<noteq> a @ show_nat (segment_spec a (hosts ifs) n) @ ''.''"
proof -
  have app: "segment_spec a (hs @ [h]) n = segment_spec a [h] (segment_spec a hs n)"
    by (induction hs arbitrary: n) simp_all
  have inj: "show_nat k = show_nat l \<Longrightarrow> k = l" for k l
    by (metis digits_value_show_nat)
  assume hs: "hosts ifs = hs @ [h]" and pos: "0 < segment_spec a (hosts ifs) n"
  let ?k = "segment_spec a hs n"
  show ?thesis
  proof (cases "take 7 h = a @ show_nat ?k @ ''.''")
    case True
    then have k: "segment_spec a (hosts ifs) n = ?k - 1"
      unfolding hs app by simp
    then have "show_nat ?k \<noteq> show_nat (?k - 1)"
      using inj [of ?k "?k - 1"] pos by auto
    then show ?thesis
      unfolding k True by simp
  next
    case False
    then show ?thesis
      unfolding hs app by simp
  qed
qed

lemma segment_spec_bounds: "segment_spec a hs n \<le> n \<and> n \<le> segment_spec a hs n + length hs"
proof (induction hs arbitrary: n)
  case Nil
  then show ?case by simp
next
  case (Cons h hs)
  from Cons [of n] Cons [of "n - 1"] show ?case by auto
qed

lemma kIpv4_address: "kIpv4 = address ''172.'' 31 ''0.100''"
proof -
  have "show_nat 31 = ''31''" by code_simp
  then show ?thesis by (simp add: kIpv4_def address_def)
qed

lemma ip_buffer:
  "memcpy_at (replicate NI_MAXHOST NUL) 0 (take NI_MAXHOST kIpv4) = kIpv4 @ NUL # replicate 1012 NUL"
proof -
  have l: "length kIpv4 = 12"
    by (simp add: kIpv4_def)
  have "replicate 1013 NUL = NUL # replicate 1012 NUL"
    by (metis replicate_Suc eval_nat_numeral(3) numeral_eq_Suc pred_numeral_simps(3) semiring_norm(28))
  then show ?thesis
    using l by (simp add: memcpy_at_def NI_MAXHOST_def)
qed

text \<open>Whatever the interfaces, \<open>main\<close> leaves a node as it was constructed, but for its address.\<close>

lemma main_start_node:
  assumes "main_start args tap_open random st counter ifs = Inr (Some nd)"
  obtains ip tapname port mac where "nd = node_set_ip ip (node_start random tapname port mac st counter)"
proof -
  have same: "node_set_ip (tincan_ip4 (nd_mgr nd')) nd' = nd'" for nd'
    by (simp add: node_set_ip_def set_ip_def set_mgr_def)
  obtain tapname port where "parse_args args (kTapName_default, kUdpPort_default) = Inr (tapname, port)"
    using assms by (auto simp: main_start_def tincan_simps)
  then obtain mac where "nd = node_start random tapname port mac st counter \<or>
      (\<exists>ip. nd = node_set_ip ip (node_start random tapname port mac st counter))"
    using assms by (auto simp: main_start_def Let_def tincan_simps split: prod.splits if_splits)
  then show thesis
    using that same by metis
qed

lemma main_start_plane:
  assumes "main_start args tap_open random st counter ifs = Inr (Some nd)"
  shows "nd_plane nd = plane_new (nd_mgr nd) True" and "links_ok (nd_mgr nd)" and "forward_socket (nd_mgr nd) \<noteq> None"
proof -
  obtain ip tapname port mac where nd: "nd = node_set_ip ip (node_start random tapname port mac st counter)"
    using assms by (rule main_start_node)
  then show "nd_plane nd = plane_new (nd_mgr nd) True"
    by (simp add: node_set_ip_def set_mgr_def node_start_def ControllerAccess_new_def plane_new_def)
  show "links_ok (nd_mgr nd)" and "forward_socket (nd_mgr nd) \<noteq> None"
    using node_start_ok [of ip random tapname port mac st counter] by (simp_all add: nd node_ok_def)
qed

section \<open>Properties\<close>

definition demo_ifaces :: "string list \<Rightarrow> iface list" where
  "demo_ifaces hs = map (\<lambda>h. \<lparr>if_family = Some AF_INET, if_host = Some h\<rparr>) hs"

lemma hosts_demo [simp]: "hosts (demo_ifaces hs) = hs"
  by (induction hs) (simp_all add: demo_ifaces_def)

text \<open>
  Claim C31. The edits of the character buffer compute what they should: for an address whose second
  segment \<open>n\<close> has two digits and stays so, \<open>get_free_network_ip\<close> leaves the address with the segment
  counted down once for each interface found, in the order of the interfaces, in the network the
  address was in at that moment; everything else of the address is as before, and the last
  interface is in another network than the result.
\<close>

theorem free_ip_refines:
  assumes "length a = 4" and "NUL \<notin> set a" and "NUL \<notin> set b" and "10 + length (hosts ifs) \<le> n" and "n < 100"
  shows "\<exists>buf. get_free_network_ip (Some ifs) (address a n b @ NUL # rest) = Inr (0, buf) \<and>
    array_str buf = address a (segment_spec a (hosts ifs) n) b \<and>
    length buf = length (address a n b @ NUL # rest) \<and>
    (\<forall>hs h. hosts ifs = hs @ [h] \<longrightarrow> take 7 h \<noteq> take 7 (array_str buf))"
proof -
  let ?n = "segment_spec a (hosts ifs) n"
  have n: "10 \<le> ?n" "?n < 100"
    using segment_spec_bounds [of a "hosts ifs" n] assms(4,5) by linarith+
  note two = show_nat_two [OF n]
  have no: "NUL \<notin> set (address a ?n b)"
    using assms(2,3) by (rule address_no_NUL)
  have t: "take 7 (address a ?n b) = a @ show_nat ?n @ ''.''"
    using assms(1) two by (simp add: address_def)
  have g: "get_free_network_ip (Some ifs) (address a n b @ NUL # rest) = Inr (0, address a ?n b @ NUL # rest)"
    using free_ip_loop_spec [OF assms(1-3)] assms(4,5) by (simp add: get_free_network_ip_def)
  have "show_nat n = [digit_char (n div 10), digit_char (n mod 10)]"
    using assms(4,5) by (intro show_nat_two) simp_all
  then have "length (address a ?n b) = length (address a n b)"
    using two by (simp add: address_def)
  moreover have "take 7 h \<noteq> a @ show_nat ?n @ ''.''" if "hosts ifs = hs @ [h]" for hs h
    using segment_spec_last [OF that, of a n] n(1) by simp
  moreover have str: "array_str (address a ?n b @ NUL # rest) = address a ?n b"
    using no by (rule array_str_buffer)
  ultimately show ?thesis
    using g t by (intro exI [of _ "address a ?n b @ NUL # rest"]) (metis length_append)
qed

theorem free_ip_refines_witness:
  "\<exists>buf. get_free_network_ip (Some (demo_ifaces [''127.0.0.1'', ''172.31.4.5'']))
      (address ''172.'' 31 ''0.100'' @ NUL # []) = Inr (0, buf) \<and> array_str buf = ''172.30.0.100''"
proof -
  have s: "show_nat 31 = ''31''" "show_nat 30 = ''30''" by code_simp+
  have "NUL \<notin> set ''172.''" "NUL \<notin> set ''0.100''" "length ''172.'' = 4"
    "10 + length (hosts (demo_ifaces [''127.0.0.1'', ''172.31.4.5''])) \<le> 31" "(31 :: nat) < 100"
    by (simp_all add: NUL_def)
  from free_ip_refines [OF this(3,1,2,4,5), of "[]"] s show ?thesis
    by (auto simp: address_def)
qed

text \<open>
  The interfaces are looked at once only: an interface in the network below the default one that
  comes before an interface in the default network is in the very network the result ends up in.
\<close>

theorem free_ip_conflict:
  assumes "length a = 4" and "NUL \<notin> set a" and "NUL \<notin> set b" and "12 \<le> n" and "n < 100"
    and "hosts ifs = [address a (n - 1) x, address a n y]"
  shows "\<exists>buf. get_free_network_ip (Some ifs) (address a n b @ NUL # rest) = Inr (0, buf) \<and>
    array_str buf = address a (n - 1) b \<and> take 7 (array_str buf) = take 7 (hd (hosts ifs))"
proof -
  have "10 \<le> n" "10 \<le> n - 1" "n - 1 < 100"
    using assms(4,5) by simp_all
  note two = show_nat_two [OF this(1) assms(5)] show_nat_two [OF this(2,3)]
  have "show_nat n \<noteq> show_nat (n - 1)"
  proof
    assume "show_nat n = show_nat (n - 1)"
    then have "n = n - 1"
      by (metis digits_value_show_nat)
    with assms(4) show False by simp
  qed
  moreover have t: "take 7 (address a (n - 1) x) = a @ show_nat (n - 1) @ ''.''"
    "take 7 (address a n y) = a @ show_nat n @ ''.''"
    "take 7 (address a (n - 1) b) = a @ show_nat (n - 1) @ ''.''"
    using assms(1) two by (simp_all add: address_def)
  ultimately have ne: "take 7 (address a (n - 1) x) \<noteq> a @ show_nat n @ ''.''"
    by simp
  have "segment_spec a (hosts ifs) n = n - 1"
    using t(2) ne assms(6) by simp
  moreover have "get_free_network_ip (Some ifs) (address a n b @ NUL # rest) =
      Inr (0, address a (segment_spec a (hosts ifs) n) b @ NUL # rest)"
    using free_ip_loop_spec [OF assms(1-3), of ifs n rest] assms(4-6) by (simp add: get_free_network_ip_def)
  moreover have "array_str (address a (n - 1) b @ NUL # rest) = address a (n - 1) b"
    using assms(2,3) by (intro array_str_buffer address_no_NUL)
  ultimately show ?thesis
    using t(1,3) assms(6) by simp
qed

theorem free_ip_conflict_witness:
  "\<exists>buf. get_free_network_ip (Some (demo_ifaces [address ''172.'' 30 ''1.1'', address ''172.'' 31 ''1.1'']))
      (address ''172.'' 31 ''0.100'' @ NUL # []) = Inr (0, buf) \<and> array_str buf = ''172.30.0.100''"
proof -
  have s: "show_nat 30 = ''30''" by code_simp
  have "NUL \<notin> set ''172.''" "NUL \<notin> set ''0.100''" "length ''172.'' = 4" "(12 :: nat) \<le> 31" "(31 :: nat) < 100"
    "hosts (demo_ifaces [address ''172.'' 30 ''1.1'', address ''172.'' 31 ''1.1'']) =
      [address ''172.'' (31 - 1) ''1.1'', address ''172.'' 31 ''1.1'']"
    by (simp_all add: NUL_def)
  from free_ip_conflict [OF this(3,1,2,4,5,6), of "[]"] s show ?thesis
    by (auto simp: address_def)
qed

text \<open>
  Claim C32. When \<open>main\<close> starts the threads, the node is one of the runs the invariants speak of: unset up,
  with the forwarding socket in place, the tap device named and the sockets bound to the port given by
  the two arguments, or \<open>ipop\<close> and 5800, and an address in \<open>172.n.0.100\<close> with \<open>n\<close> counted down from 31
  as the interfaces of the host require.
\<close>

theorem main_starts_node:
  assumes "main_start args tap_open random st counter (Some ifs) = Inr (Some nd)" and "length (hosts ifs) \<le> 21"
  shows "node_reachable nd \<and> tincan_id (nd_mgr nd) = [] \<and> forward_socket (nd_mgr nd) = Some Sock6 \<and>
    tap_name (nd_mgr nd) = (if length args = 3 then args ! 1 else ''ipop'') \<and>
    (\<exists>port. (if length args = 3 then atoi (args ! 2) else Inr 5800) = Inr port \<and>
       ct_bound (nd_ctl nd) Sock4 = (''127.0.0.1'', port) \<and> ct_bound (nd_ctl nd) Sock6 = (''::1'', port)) \<and>
    tincan_ip4 (nd_mgr nd) = address ''172.'' (segment_spec ''172.'' (hosts ifs) 31) ''0.100''"
proof -
  let ?n = "segment_spec ''172.'' (hosts ifs) 31"
  obtain tapname port where p: "parse_args args (kTapName_default, kUdpPort_default) = Inr (tapname, port)"
    using assms(1) by (auto simp: main_start_def tincan_simps)
  then have tap: "tapname = (if length args = 3 then args ! 1 else ''ipop'')"
    by (auto simp: parse_args_def tincan_simps kTapName_default_def split: if_splits)
  have port: "(if length args = 3 then atoi (args ! 2) else Inr 5800) = Inr port"
    using p by (auto simp: parse_args_def tincan_simps kUdpPort_default_def split: if_splits)
  obtain fd mac where o: "tap_open tapname = (fd, mac)"
    by (cases "tap_open tapname")
  let ?nd = "node_start random tapname port mac st counter"
  have ip: "tincan_ip4 (nd_mgr ?nd) = kIpv4"
    by (simp add: node_start_def ControllerAccess_new_def plane_new_def set_forward_socket_def mgr_new_def)
  have nul: "NUL \<notin> set ''172.''" "NUL \<notin> set ''0.100''"
    by (simp_all add: NUL_def)
  have loop: "free_ip_loop ifs (kIpv4 @ NUL # replicate 1012 NUL) =
      Inr (address ''172.'' ?n ''0.100'' @ NUL # replicate 1012 NUL)"
    unfolding kIpv4_address using nul assms(2) by (intro free_ip_loop_spec) simp_all
  have str: "array_str (address ''172.'' ?n ''0.100'' @ NUL # replicate 1012 NUL) = address ''172.'' ?n ''0.100''"
    using nul by (intro array_str_buffer address_no_NUL)
  have nd: "nd = node_set_ip (address ''172.'' ?n ''0.100'') ?nd"
    using assms(1) p o loop str ip
    by (auto simp: main_start_def get_free_network_ip_def ip_buffer Let_def split: if_splits)
  show ?thesis
    unfolding nd
  proof (intro conjI)
    show "node_reachable (node_set_ip (address ''172.'' ?n ''0.100'') ?nd)"
      by (rule nr_start)
  qed (use tap port in \<open>simp_all add: node_set_ip_def set_ip_def node_start_def ControllerAccess_new_def plane_new_def
        set_forward_socket_def mgr_new_def kLocalHost_def kLocalHost6_def\<close>)
qed

theorem main_starts_node_witness:
  "\<exists>nd. main_start [''tincan'', ''looptap'', ''5805''] (\<lambda>_. (3, [0, 1, 2, 3, 4, 5])) 5 XMPP_NONE 0 (Some []) =
      Inr (Some nd) \<and> node_reachable nd \<and> tap_name (nd_mgr nd) = ''looptap'' \<and>
      ct_bound (nd_ctl nd) Sock6 = (''::1'', 5805)"
proof -
  have a: "atoi ''5805'' = Inr 5805" by code_simp
  obtain nd where m: "main_start [''tincan'', ''looptap'', ''5805''] (\<lambda>_. (3, [0, 1, 2, 3, 4, 5])) 5 XMPP_NONE 0
      (Some []) = Inr (Some nd)"
    using a by (simp add: main_start_def parse_args_def get_free_network_ip_def Let_def)
  from main_starts_node [OF m] m a show ?thesis by auto
qed

end
