(* ===== verification/Xmpp_Socket.thy ===== *)
theory Xmpp_Socket
  imports Instances
begin

text \<open>
  \<open>TinCanXmppSocket\<close> (\<open>src/tincanxmppsocket.h\<close>, \<open>src/tincanxmppsocket.cc\<close>): the socket under
  the XMPP client, with its write buffer and its TLS states. The libjingle socket below it is
  the environment: what its calls return are arguments of the operations.
\<close>

section \<open>State\<close>

datatype xs_state = STATE_CLOSED | STATE_CONNECTING | STATE_OPEN | STATE_TLS_CONNECTING
  | STATE_TLS_OPEN

datatype tls_options = TLS_DISABLED | TLS_ENABLED | TLS_REQUIRED

text \<open>
  \<open>xs_cricket\<close> is the pointer \<open>cricket_socket_\<close>: the family the socket was created for and
  whether it is wrapped in an \<open>SSLAdapter\<close>.
\<close>

record xmpp_socket =
  xs_cricket :: "(family \<times> bool) option"
  xs_state :: xs_state
  xs_buffer :: "byte list"
  xs_tls :: tls_options

datatype xs_signal = SignalRead | SignalConnected | SignalSSLConnected | SignalClosed
  | SignalCloseEvent int | SocketCreated family bool | SocketConnect sockaddr | SocketSend "byte list"
  | SocketDeleted

type_synonym 'a xs_step = "('a \<times> xmpp_socket \<times> xs_signal list) result"

section \<open>Operations\<close>

definition xs_new :: "tls_options \<Rightarrow> xmpp_socket" where
  "xs_new tls = \<lparr>xs_cricket = None, xs_state = STATE_CLOSED, xs_buffer = [], xs_tls = tls\<rparr>"

text \<open>\<open>ssl\<close> is whether the build defines \<open>FEATURE_ENABLE_SSL\<close>.\<close>

definition xs_CreateCricketSocket :: "bool \<Rightarrow> family \<Rightarrow> xmpp_socket \<Rightarrow> xmpp_socket \<times> xs_signal list" where
  "xs_CreateCricketSocket ssl family s =
     (let family = (if family = AF_UNSPEC then AF_INET else family);
          wrapped = (ssl \<and> xs_tls s \<noteq> TLS_DISABLED)
      in (s\<lparr>xs_cricket := Some (family, wrapped)\<rparr>, [SocketCreated family wrapped]))"

text \<open>
  The loop of \<open>OnWriteEvent\<close>: the \<open>k\<close>-th call of \<open>Send\<close> on the socket below accepts \<open>answer k\<close>
  bytes; the loop ends when the buffer is empty or a call accepts none.
\<close>

function xs_flush :: "(nat \<Rightarrow> int) \<Rightarrow> nat \<Rightarrow> byte list \<Rightarrow> byte list list \<times> byte list \<times> nat" where
  "xs_flush answer k buf =
     (if buf = [] then ([], [], k)
      else (let written = answer k in
        if 0 < written
        then (let (sent, rest, k') = xs_flush answer (Suc k) (drop (nat written) buf)
              in (take (nat written) buf # sent, rest, k'))
        else ([], buf, Suc k)))"
  by pat_completeness auto
termination
  by (relation "measure (\<lambda>(answer, k, buf). length buf)") auto

declare xs_flush.simps [simp del]

definition xs_OnWriteEvent :: "(nat \<Rightarrow> int) \<Rightarrow> nat \<Rightarrow> xmpp_socket \<Rightarrow> nat xs_step" where
  "xs_OnWriteEvent answer k s =
     (if xs_buffer s = [] then Inr (k, s, [])
      else case xs_cricket s of
        None \<Rightarrow> Inl NullDeref
      | Some _ \<Rightarrow>
          (let (sent, rest, k') = xs_flush answer k (xs_buffer s)
           in Inr (k', s\<lparr>xs_buffer := rest\<rparr>, map SocketSend sent)))"

definition xs_OnReadEvent :: "xmpp_socket \<Rightarrow> xmpp_socket \<times> xs_signal list" where
  "xs_OnReadEvent s = (s, [SignalRead])"

definition xs_OnConnectEvent :: "bool \<Rightarrow> (nat \<Rightarrow> int) \<Rightarrow> nat \<Rightarrow> xmpp_socket \<Rightarrow> nat xs_step" where
  "xs_OnConnectEvent ssl answer k s =
     (if ssl \<and> xs_state s = STATE_TLS_CONNECTING
      then sbind (xs_OnWriteEvent answer k (s\<lparr>xs_state := STATE_TLS_OPEN\<rparr>))
             (\<lambda>(k', s', sg). Inr (k', s', SignalSSLConnected # sg))
      else Inr (k, s\<lparr>xs_state := STATE_OPEN\<rparr>, [SignalConnected]))"

definition xs_OnCloseEvent :: "int \<Rightarrow> xmpp_socket \<Rightarrow> xmpp_socket \<times> xs_signal list" where
  "xs_OnCloseEvent error s = (s, [SignalCloseEvent error])"

text \<open>\<open>Connect\<close>: \<open>ret\<close> and \<open>blocking\<close> are what \<open>Connect\<close> and \<open>IsBlocking\<close> below return.\<close>

definition xs_Connect :: "bool \<Rightarrow> jingle \<Rightarrow> sockaddr \<Rightarrow> int \<Rightarrow> bool \<Rightarrow> xmpp_socket \<Rightarrow> bool xs_step" where
  "xs_Connect ssl jg addr ret blocking s =
     (let (s, sg) = (if xs_cricket s = None then xs_CreateCricketSocket ssl (addr_family jg addr) s
                     else (s, []))
      in Inr (if ret < 0 then blocking else True, s, sg @ [SocketConnect addr]))"

text \<open>\<open>Read\<close>: \<open>ret\<close> is the result of \<open>Recv\<close>; gives the number of bytes read, if any.\<close>

definition xs_Read :: "int \<Rightarrow> xmpp_socket \<Rightarrow> nat option xs_step" where
  "xs_Read ret s =
     (if xs_cricket s = None then Inl NullDeref
      else Inr (if 0 < ret then Some (nat ret) else None, s, []))"

definition xs_Write :: "(nat \<Rightarrow> int) \<Rightarrow> nat \<Rightarrow> byte list \<Rightarrow> xmpp_socket \<Rightarrow> (bool \<times> nat) xs_step" where
  "xs_Write answer k data s =
     sbind (xs_OnWriteEvent answer k (s\<lparr>xs_buffer := xs_buffer s @ data\<rparr>))
       (\<lambda>(k', s', sg). Inr ((True, k'), s', sg))"

definition xs_Close :: "int \<Rightarrow> xmpp_socket \<Rightarrow> bool xs_step" where
  "xs_Close ret s =
     (if xs_state s \<noteq> STATE_OPEN then Inr (False, s, [])
      else if xs_cricket s = None then Inl NullDeref
      else if ret = 0 then Inr (True, s\<lparr>xs_state := STATE_CLOSED\<rparr>, [SignalClosed])
      else Inr (False, s, []))"

definition xs_StartTls :: "bool \<Rightarrow> int \<Rightarrow> xmpp_socket \<Rightarrow> bool xs_step" where
  "xs_StartTls ssl ret s =
     (if \<not> ssl then Inr (False, s, [])
      else if xs_tls s = TLS_DISABLED then Inr (False, s, [])
      else if xs_cricket s = None then Inl NullDeref
      else if ret \<noteq> 0 then Inr (False, s, [])
      else Inr (True, s\<lparr>xs_state := STATE_TLS_CONNECTING\<rparr>, []))"

text \<open>The destructor: \<open>Close()\<close>, then \<open>delete cricket_socket_\<close> (of a null pointer: nothing).\<close>

definition xs_destroy :: "int \<Rightarrow> xmpp_socket \<Rightarrow> xs_signal list result" where
  "xs_destroy ret s =
     sbind (xs_Close ret s) (\<lambda>(b, s', sg).
       Inr (sg @ (if xs_cricket s' = None then [] else [SocketDeleted])))"

lemmas xs_defs = xs_CreateCricketSocket_def xs_OnWriteEvent_def xs_OnReadEvent_def
  xs_OnConnectEvent_def xs_OnCloseEvent_def xs_Connect_def xs_Read_def xs_Write_def xs_Close_def
  xs_StartTls_def xs_destroy_def

section \<open>The write buffer\<close>

lemma xs_flush_conserves: "xs_flush answer k buf = (sent, rest, k') \<Longrightarrow> concat sent @ rest = buf"
proof (induction answer k buf arbitrary: sent rest k' rule: xs_flush.induct)
  case (1 answer k buf)
  show ?case
  proof (cases "buf = [] \<or> answer k \<le> 0")
    case True
    then show ?thesis
      using "1.prems" by (auto simp: xs_flush.simps [of answer k buf] Let_def split: if_splits)
  next
    case False
    obtain sent' rest' k'' where rec:
      "xs_flush answer (Suc k) (drop (nat (answer k)) buf) = (sent', rest', k'')"
      by (metis prod_cases3)
    then have "sent = take (nat (answer k)) buf # sent'" "rest = rest'"
      using "1.prems" False by (auto simp: xs_flush.simps [of answer k buf])
    moreover have "concat sent' @ rest' = drop (nat (answer k)) buf"
      using "1.IH" [OF _ refl _ rec] False by auto
    ultimately show ?thesis by simp
  qed
qed

text \<open>
  The calls of \<open>Send\<close> of one loop: each that is not the last accepts something, and the last one
  nothing if bytes are left.
\<close>

lemma xs_flush_calls:
  "xs_flush answer k buf = (sent, rest, k') \<Longrightarrow>
     k' = k + length sent + (if rest = [] then 0 else 1) \<and> k' \<le> k + length buf \<and>
     (\<forall>i < length sent. 0 < answer (k + i)) \<and> (rest \<noteq> [] \<longrightarrow> answer (k + length sent) \<le> 0)"
proof (induction answer k buf arbitrary: sent rest k' rule: xs_flush.induct)
  case (1 answer k buf)
  show ?case
  proof (cases "buf = [] \<or> answer k \<le> 0")
    case True
    then show ?thesis
      using "1.prems" by (cases buf) (auto simp: xs_flush.simps [of answer k] Let_def split: if_splits)
  next
    case False
    obtain sent' rest' k'' where rec:
      "xs_flush answer (Suc k) (drop (nat (answer k)) buf) = (sent', rest', k'')"
      by (metis prod_cases3)
    then have eq: "sent = take (nat (answer k)) buf # sent'" "rest = rest'" "k' = k''"
      using "1.prems" False by (auto simp: xs_flush.simps [of answer k buf])
    have ih: "k'' = Suc k + length sent' + (if rest' = [] then 0 else 1)"
      "k'' \<le> Suc k + length (drop (nat (answer k)) buf)"
      "\<forall>i < length sent'. 0 < answer (Suc k + i)" "rest' \<noteq> [] \<longrightarrow> answer (Suc k + length sent') \<le> 0"
      using "1.IH" [OF _ refl _ rec] False by auto
    have "0 < answer (k + i)" if "i < length sent" for i
      using that ih(3) eq(1) False by (cases i) auto
    moreover have "Suc (length (drop (nat (answer k)) buf)) \<le> length buf"
      using False by (cases buf) auto
    ultimately show ?thesis
      using ih eq by auto
  qed
qed

text \<open>The bytes given to the socket below, among the signals.\<close>

fun sent_bytes :: "xs_signal list \<Rightarrow> byte list" where
  "sent_bytes [] = []"
| "sent_bytes (SocketSend b # sg) = b @ sent_bytes sg"
| "sent_bytes (_ # sg) = sent_bytes sg"

lemma sent_bytes_append [simp]: "sent_bytes (a @ b) = sent_bytes a @ sent_bytes b"
  by (induction a rule: sent_bytes.induct) auto

lemma sent_bytes_sends [simp]: "sent_bytes (map SocketSend bs) = concat bs"
  by (induction bs) auto

lemma OnWriteEvent_conserves:
  "xs_OnWriteEvent answer k s = Inr (k', s', sg) \<Longrightarrow>
     sent_bytes sg @ xs_buffer s' = xs_buffer s \<and> xs_cricket s' = xs_cricket s \<and>
     xs_state s' = xs_state s \<and> xs_tls s' = xs_tls s"
  by (auto simp: xs_OnWriteEvent_def dest: xs_flush_conserves split: if_splits option.splits prod.splits)

section \<open>Runs\<close>

datatype xs_op = XConnect sockaddr int bool | XWrite "byte list" | XWriteEvent | XConnectEvent
  | XClose int | XStartTls int | XCloseEvent int

text \<open>A run of the socket: the calls of the client and the events of the socket below.\<close>

definition xs_step :: "bool \<Rightarrow> jingle \<Rightarrow> (nat \<Rightarrow> int) \<Rightarrow> xs_op \<Rightarrow> nat \<Rightarrow> xmpp_socket \<Rightarrow> nat xs_step" where
  "xs_step ssl jg answer op k s =
     (case op of
        XConnect a ret b \<Rightarrow> sbind (xs_Connect ssl jg a ret b s) (\<lambda>(_, s', sg). Inr (k, s', sg))
      | XWrite d \<Rightarrow> sbind (xs_Write answer k d s) (\<lambda>((_, k'), s', sg). Inr (k', s', sg))
      | XWriteEvent \<Rightarrow> xs_OnWriteEvent answer k s
      | XConnectEvent \<Rightarrow> xs_OnConnectEvent ssl answer k s
      | XClose ret \<Rightarrow> sbind (xs_Close ret s) (\<lambda>(_, s', sg). Inr (k, s', sg))
      | XStartTls ret \<Rightarrow> sbind (xs_StartTls ssl ret s) (\<lambda>(_, s', sg). Inr (k, s', sg))
      | XCloseEvent e \<Rightarrow> (let (s', sg) = xs_OnCloseEvent e s in Inr (k, s', sg)))"

fun xs_run :: "bool \<Rightarrow> jingle \<Rightarrow> (nat \<Rightarrow> int) \<Rightarrow> xs_op list \<Rightarrow> nat \<Rightarrow> xmpp_socket \<Rightarrow> nat xs_step" where
  "xs_run ssl jg answer [] k s = Inr (k, s, [])"
| "xs_run ssl jg answer (op # ops) k s =
     sbind (xs_step ssl jg answer op k s) (\<lambda>(k', s', sg).
       sbind (xs_run ssl jg answer ops k' s') (\<lambda>(k'', s'', sg'). Inr (k'', s'', sg @ sg')))"

fun written_bytes :: "xs_op list \<Rightarrow> byte list" where
  "written_bytes [] = []"
| "written_bytes (XWrite d # ops) = d @ written_bytes ops"
| "written_bytes (_ # ops) = written_bytes ops"

text \<open>What each operation keeps: an \<open>SSLAdapter\<close> below exactly when TLS may be started on it.\<close>

definition xs_ok :: "bool \<Rightarrow> xmpp_socket \<Rightarrow> bool" where
  "xs_ok ssl s \<longleftrightarrow>
     (case xs_cricket s of
        None \<Rightarrow> xs_state s \<noteq> STATE_TLS_CONNECTING
      | Some (f, w) \<Rightarrow> f \<noteq> AF_UNSPEC \<and> w = (ssl \<and> xs_tls s \<noteq> TLS_DISABLED) \<and>
          (xs_state s = STATE_TLS_CONNECTING \<longrightarrow> w))"

text \<open>Operations on the buffer only.\<close>

lemma xs_ok_OnWriteEvent:
  "xs_OnWriteEvent answer k s = Inr (k', s', sg) \<Longrightarrow> xs_ok ssl s' = xs_ok ssl s \<and> xs_tls s' = xs_tls s"
  by (drule OnWriteEvent_conserves) (simp add: xs_ok_def split: option.split)

lemma xs_ok_open: "xs_ok ssl s \<Longrightarrow> x \<noteq> STATE_TLS_CONNECTING \<Longrightarrow> xs_ok ssl (s\<lparr>xs_state := x\<rparr>)"
  by (auto simp: xs_ok_def split: option.splits)

lemma xs_ok_buffer [simp]: "xs_ok ssl (s\<lparr>xs_buffer := b\<rparr>) = xs_ok ssl s"
  by (simp add: xs_ok_def split: option.split)

lemma xs_step_conserves:
  assumes "xs_step ssl jg answer op k s = Inr (k', s', sg)"
  shows "sent_bytes sg @ xs_buffer s' = xs_buffer s @ written_bytes [op]"
  using assms
  by (cases op)
    (auto simp: xs_step_def xs_Connect_def xs_CreateCricketSocket_def xs_Write_def xs_OnConnectEvent_def
      xs_Close_def xs_StartTls_def xs_OnCloseEvent_def tincan_simps Let_def
      dest: OnWriteEvent_conserves split: if_splits)

lemma xs_step_ok:
  assumes step: "xs_step ssl jg answer op k s = Inr (k', s', sg)" and ok: "xs_ok ssl s"
  shows "xs_ok ssl s' \<and> xs_tls s' = xs_tls s"
proof (cases op)
  case (XConnect a ret b)
  then show ?thesis
    using step ok
    by (auto simp: xs_step_def xs_Connect_def xs_CreateCricketSocket_def xs_ok_def Let_def
        split: if_splits option.splits)
next
  case (XWrite d)
  then show ?thesis
    using step ok
    by (auto simp: xs_step_def xs_Write_def tincan_simps dest!: xs_ok_OnWriteEvent [where ssl = ssl])
next
  case XWriteEvent
  then show ?thesis
    using step ok by (auto simp: xs_step_def dest!: xs_ok_OnWriteEvent [where ssl = ssl])
next
  case XConnectEvent
  then show ?thesis
    using step ok
    by (auto simp: xs_step_def xs_OnConnectEvent_def tincan_simps xs_ok_open
        dest!: xs_ok_OnWriteEvent [where ssl = ssl] split: if_splits)
next
  case (XClose ret)
  then show ?thesis
    using step ok by (auto simp: xs_step_def xs_Close_def xs_ok_open split: if_splits)
next
  case (XStartTls ret)
  then show ?thesis
    using step ok
    by (auto simp: xs_step_def xs_StartTls_def xs_ok_def split: if_splits option.splits)
next
  case (XCloseEvent e)
  then show ?thesis
    using step ok by (auto simp: xs_step_def xs_OnCloseEvent_def)
qed

lemma written_bytes_Cons: "written_bytes (op # ops) = written_bytes [op] @ written_bytes ops"
  by (cases op) simp_all

lemma xs_new_ok: "xs_ok ssl (xs_new tls)"
  by (simp add: xs_ok_def xs_new_def)

section \<open>Properties\<close>

text \<open>
  Claim C26. Whatever the socket below accepts in each call, over any run of the socket the bytes
  handed to it, followed by the bytes still buffered, are the bytes written, in order.
\<close>

theorem xmpp_socket_stream:
  assumes "xs_run ssl jg answer ops k s = Inr (k', s', sg)"
  shows "sent_bytes sg @ xs_buffer s' = xs_buffer s @ written_bytes ops"
  using assms
proof (induction ops arbitrary: k s sg)
  case Nil
  then show ?case by simp
next
  case (Cons op ops)
  from Cons.prems obtain k1 s1 sg1 sg2 where
    1: "xs_step ssl jg answer op k s = Inr (k1, s1, sg1)"
    and 2: "xs_run ssl jg answer ops k1 s1 = Inr (k', s', sg2)" and "sg = sg1 @ sg2"
    by (auto simp: tincan_simps)
  with Cons.IH [OF 2] xs_step_conserves [OF 1] written_bytes_Cons [of op ops]
  show ?case by (metis append.assoc sent_bytes_append)
qed

definition xs_demo :: xmpp_socket where
  "xs_demo = \<lparr>xs_cricket = Some (AF_INET, True), xs_state = STATE_TLS_OPEN, xs_buffer = [],
     xs_tls = TLS_REQUIRED\<rparr>"

definition demo_answers :: "nat \<Rightarrow> int" where
  "demo_answers k = (if k = 0 then 2 else if k = 1 then 0 else 5)"

lemma xs_demo_run:
  "xs_run True jingle0 demo_answers [XWrite [1, 2, 3], XWriteEvent] 0 xs_demo =
     Inr (3, xs_demo, [SocketSend [1, 2], SocketSend [3]])"
proof -
  have 1: "xs_flush demo_answers 0 [1, 2, 3] = ([[1, 2]], [3], 2)"
    by (simp add: xs_flush.simps demo_answers_def)
  have 2: "xs_flush demo_answers 2 [3] = ([[3]], [], 3)"
    by (simp add: xs_flush.simps demo_answers_def)
  show ?thesis
    by (simp add: xs_step_def xs_Write_def xs_OnWriteEvent_def xs_demo_def 1 2)
qed

theorem xmpp_socket_stream_witness:
  "sent_bytes [SocketSend [1, 2], SocketSend [3]] @ xs_buffer xs_demo = [1, 2, 3]"
  using xmpp_socket_stream [OF xs_demo_run] by (simp add: xs_demo_def)

text \<open>
  Claim C27. The loop of \<open>OnWriteEvent\<close> ends, whatever the socket below answers: it calls \<open>Send\<close> at most
  once per byte in the buffer, goes on exactly while each call accepts something, and leaves bytes in
  the buffer only when its last call accepted none; if every call accepts something the buffer is
  empty afterwards.
\<close>

theorem xmpp_socket_write_ends:
  assumes "xs_cricket s \<noteq> None"
  shows "\<exists>k' s' sg. xs_OnWriteEvent answer k s = Inr (k', s', sg) \<and>
    k' = k + length sg + (if xs_buffer s' = [] then 0 else 1) \<and> k' \<le> k + length (xs_buffer s) \<and>
    (\<forall>i < length sg. 0 < answer (k + i)) \<and> (xs_buffer s' \<noteq> [] \<longrightarrow> answer (k + length sg) \<le> 0) \<and>
    ((\<forall>i. 0 < answer i) \<longrightarrow> xs_buffer s' = [])"
proof (cases "xs_buffer s = []")
  case True
  then show ?thesis by (simp add: xs_OnWriteEvent_def)
next
  case False
  obtain sent rest k' where f: "xs_flush answer k (xs_buffer s) = (sent, rest, k')"
    by (metis prod_cases3)
  from False assms have "xs_OnWriteEvent answer k s = Inr (k', s\<lparr>xs_buffer := rest\<rparr>, map SocketSend sent)"
    by (auto simp: xs_OnWriteEvent_def f)
  then show ?thesis
    using xs_flush_calls [OF f] by (auto simp: not_le [symmetric])
qed

theorem xmpp_socket_write_ends_witness:
  "\<exists>k' s' sg. xs_OnWriteEvent (\<lambda>_. 1) 0 (xs_demo\<lparr>xs_buffer := [7, 8]\<rparr>) = Inr (k', s', sg) \<and> k' \<le> 2 \<and>
    xs_buffer s' = []"
  using xmpp_socket_write_ends [of "xs_demo\<lparr>xs_buffer := [7, 8]\<rparr>" "\<lambda>_. 1" 0]
  by (auto simp: xs_demo_def)

text \<open>
  Claim C28. In any run of a new socket that reaches \<open>StartTls\<close>'s cast, the socket below is an
  \<open>SSLAdapter\<close>: an existing socket below is wrapped exactly when the build has TLS and the options
  do not disable it, it was never created for an unspecified family, and a socket waiting for a
  TLS handshake has a wrapped socket below.
\<close>

theorem xmpp_socket_adapter:
  assumes "xs_run ssl jg answer ops k (xs_new tls) = Inr (k', s', sg)"
  shows "(\<forall>f w. xs_cricket s' = Some (f, w) \<longrightarrow> f \<noteq> AF_UNSPEC \<and> w = (ssl \<and> tls \<noteq> TLS_DISABLED)) \<and>
    (xs_state s' = STATE_TLS_CONNECTING \<longrightarrow> (\<exists>f. xs_cricket s' = Some (f, True)))"
proof -
  have "xs_ok ssl s' \<and> xs_tls s' = xs_tls s"
    if "xs_run ssl jg answer ops k s = Inr (k', s', sg)" and "xs_ok ssl s" for k s sg
    using that
  proof (induction ops arbitrary: k s sg)
    case Nil
    then show ?case by simp
  next
    case (Cons op ops)
    from Cons.prems obtain k1 s1 sg1 sg2 where
      1: "xs_step ssl jg answer op k s = Inr (k1, s1, sg1)"
      and 2: "xs_run ssl jg answer ops k1 s1 = Inr (k', s', sg2)"
      by (auto simp: tincan_simps)
    then show ?case
      using Cons.IH [OF 2] xs_step_ok [OF 1] Cons.prems by simp
  qed
  from this [OF assms xs_new_ok] show ?thesis
    by (auto simp: xs_ok_def xs_new_def split: option.splits)
qed

definition xs_demo_tls :: xmpp_socket where
  "xs_demo_tls = \<lparr>xs_cricket = Some (AF_INET, True), xs_state = STATE_TLS_CONNECTING,
     xs_buffer = [], xs_tls = TLS_REQUIRED\<rparr>"

lemma xs_demo_tls_run:
  "xs_run True jingle0 demo_answers [XConnect sa_nil 0 False, XConnectEvent, XStartTls 0] 0
      (xs_new TLS_REQUIRED) =
    Inr (0, xs_demo_tls, [SocketCreated AF_INET True, SocketConnect sa_nil, SignalConnected])"
  by (simp add: xs_step_def xs_Connect_def xs_CreateCricketSocket_def xs_OnConnectEvent_def
      xs_StartTls_def xs_new_def jingle0_def sa_nil_def xs_demo_tls_def)

theorem xmpp_socket_adapter_witness:
  "\<exists>f. xs_cricket xs_demo_tls = Some (f, True) \<and> f \<noteq> AF_UNSPEC"
  using xmpp_socket_adapter [OF xs_demo_tls_run] by (simp add: xs_demo_tls_def)

end
