(* ===== verification/Xmpp_Stanza.thy ===== *)
theory Xmpp_Stanza
  imports Xmpp_Network
begin

text \<open>
  The stanzas of \<open>TinCanTask\<close> (\<open>src/xmppnetwork.cc\<close>) as XML: how \<open>SendToPeer\<close> builds a request, and what
  \<open>HandleStanza\<close> and \<open>ProcessStart\<close> read from a stanza. The XML elements and the stanzas of libjingle
  (\<open>buzz::XmlElement\<close>, \<open>XmppTask\<close>) are not under \<open>src/\<close>: their operations are parameters, and what is
  documented of them is a hypothesis.
\<close>

section \<open>XML elements\<close>

text \<open>A name space and a local name.\<close>

type_synonym qname = "string \<times> string"

text \<open>
  \<open>XmlElement::ForStr\<close> (\<open>None\<close> for a null pointer), the constructor, \<open>SetBodyText\<close>, \<open>AddElement\<close> (of the child,
  then of the parent), \<open>Name\<close>, \<open>Attr\<close>, \<open>FirstNamed\<close>, \<open>BodyText\<close>; \<open>MakeIq\<close> (of the type, the receiver and the
  id) and \<open>MatchRequestIq\<close> of \<open>XmppTask\<close>; the constants \<open>STR_GET\<close>, \<open>QN_FROM\<close> and \<open>QN_PRESENCE\<close>, and the
  other names that an iq stanza uses.
\<close>

record 'e xml_api =
  x_for_str :: "string \<Rightarrow> 'e option"
  x_new :: "qname \<Rightarrow> 'e"
  x_set_body :: "string \<Rightarrow> 'e \<Rightarrow> 'e"
  x_add :: "'e \<Rightarrow> 'e \<Rightarrow> 'e"
  x_name :: "'e \<Rightarrow> qname"
  x_attr :: "'e \<Rightarrow> qname \<Rightarrow> string"
  x_first :: "'e \<Rightarrow> qname \<Rightarrow> 'e option"
  x_body :: "'e \<Rightarrow> string"
  x_make_iq :: "string \<Rightarrow> string \<Rightarrow> string \<Rightarrow> 'e"
  x_match_iq :: "'e \<Rightarrow> string \<Rightarrow> qname \<Rightarrow> bool"
  x_get :: string
  x_from :: qname
  x_presence :: qname
  x_to :: qname
  x_type :: qname
  x_iq :: qname

definition QN_TINCAN :: qname where "QN_TINCAN = (''jabber:iq:tincan'', ''query'')"
definition QN_TINCAN_DATA :: qname where "QN_TINCAN_DATA = (''jabber:iq:tincan'', ''data'')"
definition QN_TINCAN_TYPE :: qname where "QN_TINCAN_TYPE = (''jabber:iq:tincan'', ''type'')"

definition QUOTE :: char where "QUOTE = CHR 0x22"

definition kTemplate :: string where
  "kTemplate = ''<query xmlns='' @ [QUOTE] @ ''jabber:iq:tincan'' @ [QUOTE] @ '' />''"

section \<open>Writing and reading\<close>

text \<open>
  The stanza that \<open>SendToPeer\<close> hands to \<open>SendStanza\<close>; \<open>to\<close> is the JID from the map, \<open>task_id\<close> the id of the
  task. The template is a null pointer if it cannot be parsed.
\<close>

definition request_stanza ::
  "'e xml_api \<Rightarrow> string \<Rightarrow> string \<Rightarrow> string \<Rightarrow> string \<Rightarrow> 'e result" where
  "request_stanza x task_id to data type =
     (let get = x_make_iq x (x_get x) to task_id in
      sbind (from_opt NullDeref (x_for_str x kTemplate)) (\<lambda>element.
        let data_xe = x_set_body x data (x_new x QN_TINCAN_DATA);
            type_xe = x_set_body x type (x_new x QN_TINCAN_TYPE);
            element = x_add x data_xe element;
            element = x_add x type_xe element
        in Inr (x_add x element get)))"

text \<open>The stanzas of a step: those of the events of \<open>TinCanTask_SendToPeer\<close>, in order.\<close>

fun stanzas_sent :: "'e xml_api \<Rightarrow> string \<Rightarrow> io_event list \<Rightarrow> 'e list result" where
  "stanzas_sent x task_id [] = Inr []"
| "stanzas_sent x task_id (XmppSend jid data type # es) =
     sbind (request_stanza x task_id jid data type) (\<lambda>e.
       sbind (stanzas_sent x task_id es) (\<lambda>l. Inr (e # l)))"
| "stanzas_sent x task_id (_ # es) = stanzas_sent x task_id es"

text \<open>What \<open>HandleStanza\<close> and \<open>ProcessStart\<close> ask of a stanza.\<close>

definition stanza_view :: "'e xml_api \<Rightarrow> 'e \<Rightarrow> stanza" where
  "stanza_view x st =
     \<lparr>st_from = x_attr x st (x_from x),
      st_presence = (x_name x st = x_presence x),
      st_get_iq = x_match_iq x st (x_get x) QN_TINCAN,
      st_query = map_option (\<lambda>msg. (map_option (x_body x) (x_first x msg QN_TINCAN_DATA),
        map_option (x_body x) (x_first x msg QN_TINCAN_TYPE))) (x_first x st QN_TINCAN)\<rparr>"

section \<open>What is documented of the library and of the server\<close>

text \<open>
  The template parses to an empty \<open>query\<close> element; a new element is empty and has its name and the body
  text it is given; a child is added behind the others, found by its name, and changes nothing else;
  \<open>MakeIq\<close> makes an empty iq stanza with the type and the receiver; \<open>MatchRequestIq\<close> accepts an iq
  stanza of the type with a child of the name.
\<close>

definition xml_laws :: "'e xml_api \<Rightarrow> bool" where
  "xml_laws x \<longleftrightarrow>
     (\<exists>q. x_for_str x kTemplate = Some q \<and> x_name x q = QN_TINCAN \<and> (\<forall>n. x_first x q n = None)) \<and>
     (\<forall>n s. x_name x (x_set_body x s (x_new x n)) = n \<and> x_body x (x_set_body x s (x_new x n)) = s) \<and>
     (\<forall>c p. x_name x (x_add x c p) = x_name x p) \<and>
     (\<forall>c p a. x_attr x (x_add x c p) a = x_attr x p a) \<and>
     (\<forall>c p n. x_first x (x_add x c p) n =
       (case x_first x p n of Some e \<Rightarrow> Some e | None \<Rightarrow> if x_name x c = n then Some c else None)) \<and>
     (\<forall>t to i. x_name x (x_make_iq x t to i) = x_iq x \<and> x_attr x (x_make_iq x t to i) (x_type x) = t \<and>
       x_attr x (x_make_iq x t to i) (x_to x) = to \<and> (\<forall>n. x_first x (x_make_iq x t to i) n = None)) \<and>
     (\<forall>e t n. x_match_iq x e t n \<longleftrightarrow>
       x_name x e = x_iq x \<and> x_attr x e (x_type x) = t \<and> x_first x e n \<noteq> None) \<and>
     x_iq x \<noteq> x_presence x \<and> x_type x \<noteq> x_from x \<and> x_to x \<noteq> x_from x"

text \<open>
  The XMPP server delivers a stanza to the client of the receiver's full JID with the sender's full JID as its
  \<open>from\<close> attribute and leaves the rest as it is (RFC 6120): \<open>route from st\<close> is what arrives.
\<close>

definition server_law :: "'e xml_api \<Rightarrow> (string \<Rightarrow> 'e \<Rightarrow> 'e) \<Rightarrow> bool" where
  "server_law x route \<longleftrightarrow> (\<forall>from st.
     x_name x (route from st) = x_name x st \<and>
     (\<forall>a. x_attr x (route from st) a = (if a = x_from x then from else x_attr x st a)) \<and>
     (\<forall>n. x_first x (route from st) n = x_first x st n))"

section \<open>Lemmas\<close>

lemma xml_lawsD:
  assumes "xml_laws x"
  shows "\<exists>q. x_for_str x kTemplate = Some q \<and> x_name x q = QN_TINCAN \<and> (\<forall>n. x_first x q n = None)"
    and "x_name x (x_set_body x s (x_new x n)) = n" and "x_body x (x_set_body x s (x_new x n)) = s"
    and "x_name x (x_add x c p) = x_name x p" and "x_attr x (x_add x c p) a = x_attr x p a"
    and "x_first x (x_add x c p) n =
      (case x_first x p n of Some e \<Rightarrow> Some e | None \<Rightarrow> if x_name x c = n then Some c else None)"
    and "x_name x (x_make_iq x t to i) = x_iq x" and "x_attr x (x_make_iq x t to i) (x_type x) = t"
    and "x_attr x (x_make_iq x t to i) (x_to x) = to" and "x_first x (x_make_iq x t to i) n = None"
    and "x_match_iq x e t n \<longleftrightarrow> x_name x e = x_iq x \<and> x_attr x e (x_type x) = t \<and> x_first x e n \<noteq> None"
    and "x_iq x \<noteq> x_presence x" and "x_type x \<noteq> x_from x" and "x_to x \<noteq> x_from x"
  using assms by (simp_all add: xml_laws_def del: split_paired_All)

lemma server_lawD:
  assumes "server_law x route"
  shows "x_name x (route from st) = x_name x st"
    and "x_attr x (route from st) a = (if a = x_from x then from else x_attr x st a)"
    and "x_first x (route from st) n = x_first x st n"
  using assms unfolding server_law_def by blast+

text \<open>The view of the message that comes from \<open>from\<close> with this data and type.\<close>

definition request_view :: "string \<Rightarrow> string \<Rightarrow> string \<Rightarrow> stanza" where
  "request_view from data type =
     \<lparr>st_from = from, st_presence = False, st_get_iq = True, st_query = Some (Some data, Some type)\<rparr>"

lemma request_arrives:
  assumes laws: "xml_laws x" and route: "server_law x route"
  shows "\<exists>get. request_stanza x task_id to data type = Inr get \<and> x_attr x get (x_to x) = to \<and>
    stanza_view x (route from get) = request_view from data type"
proof -
  note L = xml_lawsD [OF laws] and R = server_lawD [OF route]
  obtain q where q: "x_for_str x kTemplate = Some q" "x_name x q = QN_TINCAN" "\<And>n. x_first x q n = None"
    using L(1) by blast
  let ?data = "x_set_body x data (x_new x QN_TINCAN_DATA)"
  let ?type = "x_set_body x type (x_new x QN_TINCAN_TYPE)"
  let ?query = "x_add x ?type (x_add x ?data q)"
  let ?get = "x_add x ?query (x_make_iq x (x_get x) to task_id)"
  have "request_stanza x task_id to data type = Inr ?get"
    using q(1) by (simp add: request_stanza_def)
  moreover have "x_attr x ?get (x_to x) = to"
    by (simp add: L)
  moreover have query: "x_first x ?get QN_TINCAN = Some ?query"
    by (simp add: L q)
  have parts: "x_first x ?query QN_TINCAN_DATA = Some ?data" "x_first x ?query QN_TINCAN_TYPE = Some ?type"
    by (simp_all add: L q QN_TINCAN_DATA_def QN_TINCAN_TYPE_def)
  have "stanza_view x (route from ?get) = request_view from data type"
    unfolding stanza_view_def request_view_def
    using query parts L(3,7,8,12,13) by (simp add: R L(4,5,11))
  ultimately show ?thesis by blast
qed

section \<open>A concrete instance\<close>

datatype xml = Xml qname "(qname \<times> string) list" string "xml list"

fun xml_name :: "xml \<Rightarrow> qname" where
  "xml_name (Xml n a b cs) = n"

fun xml_attr :: "xml \<Rightarrow> qname \<Rightarrow> string" where
  "xml_attr (Xml n a b cs) k = (case map_of a k of Some v \<Rightarrow> v | None \<Rightarrow> '''')"

fun xml_first :: "xml \<Rightarrow> qname \<Rightarrow> xml option" where
  "xml_first (Xml n a b cs) k = find (\<lambda>c. xml_name c = k) cs"

fun xml_body :: "xml \<Rightarrow> string" where
  "xml_body (Xml n a b cs) = b"

fun xml_set_body :: "string \<Rightarrow> xml \<Rightarrow> xml" where
  "xml_set_body s (Xml n a b cs) = Xml n a s []"

fun xml_add :: "xml \<Rightarrow> xml \<Rightarrow> xml" where
  "xml_add c (Xml n a b cs) = Xml n a b (cs @ [c])"

fun xml_route :: "string \<Rightarrow> xml \<Rightarrow> xml" where
  "xml_route from (Xml n a b cs) = Xml n (((''''::string, ''from''), from) # a) b cs"

definition xml0 :: "xml xml_api" where
  "xml0 = \<lparr>x_for_str = (\<lambda>s. if s = kTemplate then Some (Xml QN_TINCAN [] '''' []) else None),
     x_new = (\<lambda>n. Xml n [] '''' []), x_set_body = xml_set_body, x_add = xml_add, x_name = xml_name,
     x_attr = xml_attr, x_first = xml_first, x_body = xml_body,
     x_make_iq = (\<lambda>t to i. Xml (''jabber:client'', ''iq'')
       [(('''', ''type''), t), (('''', ''to''), to), (('''', ''id''), i)] '''' []),
     x_match_iq = (\<lambda>e t n. xml_name e = (''jabber:client'', ''iq'') \<and> xml_attr e ('''', ''type'') = t \<and>
       xml_first e n \<noteq> None),
     x_get = ''get'', x_from = ('''', ''from''), x_presence = (''jabber:client'', ''presence''),
     x_to = ('''', ''to''), x_type = ('''', ''type''), x_iq = (''jabber:client'', ''iq'')\<rparr>"

lemma find_snoc: "find p (xs @ [c]) = (case find p xs of Some e \<Rightarrow> Some e | None \<Rightarrow> if p c then Some c else None)"
  by (induction xs) auto

lemma xml_add_simps:
  "xml_name (xml_add c p) = xml_name p" "xml_attr (xml_add c p) a = xml_attr p a"
  "xml_first (xml_add c p) n =
     (case xml_first p n of Some e \<Rightarrow> Some e | None \<Rightarrow> if xml_name c = n then Some c else None)"
  by (cases p, simp add: find_snoc)+

lemma xml0_laws: "xml_laws xml0"
  unfolding xml_laws_def xml0_def by (simp add: xml_add_simps)

lemma xml0_server: "server_law xml0 xml_route"
proof -
  have "xml_name (xml_route f e) = xml_name e" "xml_first (xml_route f e) n = xml_first e n"
    "xml_attr (xml_route f e) a = (if a = ('''', ''from'') then f else xml_attr e a)" for f e n a
    by (cases e; simp)+
  then show ?thesis
    unfolding server_law_def xml0_def by simp
qed

section \<open>Properties\<close>

text \<open>
  Claim C30. A request crosses the XMPP server unchanged: what \<open>SendToPeer\<close> writes for a JID is one iq stanza to
  that JID, \<open>HandleStanza\<close> of the receiver queues it, and what \<open>ProcessStart\<close> reads from it is the sender's
  JID, the data and the type, all strings included.
\<close>

theorem xmpp_stanza_round_trip:
  assumes "xml_laws x" and "server_law x route"
    and "TinCanTask_SendToPeer overlay_id uid data type net = Inr (net', es)" and "xn_uid_map net uid = Some to"
  shows "\<exists>st. stanzas_sent x task_id es = Inr [st] \<and> x_attr x st (x_to x) = to \<and>
    TinCanTask_HandleStanza (stanza_view x (route from st)) peer =
      (True, peer\<lparr>xn_stanzas := xn_stanzas peer @
        [\<lparr>st_from = from, st_presence = False, st_get_iq = True, st_query = Some (Some data, Some type)\<rparr>]\<rparr>)"
proof -
  obtain st where "request_stanza x task_id to data type = Inr st" "x_attr x st (x_to x) = to"
      "stanza_view x (route from st) = request_view from data type"
    using request_arrives [OF assms(1,2), where to = to and data = data and type = type] by blast
  then show ?thesis
    using assms(3,4) by (auto simp: TinCanTask_SendToPeer_def TinCanTask_HandleStanza_def request_view_def)
qed

theorem xmpp_stanza_round_trip_witness:
  "\<exists>st. stanzas_sent xml0 ''9'' [XmppSend demo_jid ''<a>&'' ''con_req''] = Inr [st] \<and>
    TinCanTask_HandleStanza (stanza_view xml0 (xml_route ''me'' st)) demo_net =
      (True, demo_net\<lparr>xn_stanzas := [\<lparr>st_from = ''me'', st_presence = False, st_get_iq = True,
        st_query = Some (Some ''<a>&'', Some ''con_req'')\<rparr>]\<rparr>)"
proof -
  let ?net = "demo_net\<lparr>xn_uid_map := [demo_key \<mapsto> demo_jid]\<rparr>"
  have "TinCanTask_SendToPeer 1 demo_key ''<a>&'' ''con_req'' ?net =
      Inr (?net, [XmppSend demo_jid ''<a>&'' ''con_req''])" "xn_uid_map ?net demo_key = Some demo_jid"
    by (simp_all add: TinCanTask_SendToPeer_def)
  from xmpp_stanza_round_trip [OF xml0_laws xml0_server this, of "''9''" "''me''" demo_net] show ?thesis
    by (auto simp: demo_net_def xnet_new_def)
qed

end
