(* ===== verification/Send_Queue.thy ===== *)
theory Send_Queue
  imports Wqueue "HOL-Library.Multiset" "HOL-Library.Sublist"
begin

text \<open>
  The send queue as its threads run it: any number of threads in \<open>DoPacketSend\<close> (the one of ipop-tap
  that reads the tap device, the link-setup thread with a message from the controller), which add a
  packet to \<open>g_send_queue\<close> and then post a \<open>MSG_QUEUESIGNAL\<close>, and the packet-handling thread, which takes
  a signal and then, in \<open>HandleQueueSignal_w\<close>, a packet with a call of \<open>remove\<close> that blocks on an empty
  queue (\<open>src/tincanconnectionmanager.cc\<close>). The queue is the one of \<open>Wqueue\<close>, step by step; \<open>g_manager\<close> is
  set, since \<open>main\<close> creates the manager before it starts the threads.
\<close>

section \<open>The threads\<close>

text \<open>
  The state: the queue, the threads back from \<open>add\<close> that have still to post, the signals pending in
  the packet-handling thread, and the packets handed to \<open>HandlePacket\<close>.
\<close>

record 'a send_queue =
  sq_queue :: "'a monitor"
  sq_posting :: "nat set"
  sq_signals :: nat
  sq_handled :: "'a list"

definition packet_thread :: nat where "packet_thread = 0"

definition sq_init :: "'a send_queue" where
  "sq_init = \<lparr>sq_queue = monitor_init, sq_posting = {}, sq_signals = 0, sq_handled = []\<rparr>"

abbreviation sq_pc :: "'a send_queue \<Rightarrow> nat \<Rightarrow> 'a wq_pc" where
  "sq_pc s \<equiv> pcs (sq_queue s)"

text \<open>A step inside the queue: no thread enters or leaves it.\<close>

definition inner_step :: "'a monitor \<Rightarrow> 'a monitor \<Rightarrow> bool" where
  "inner_step q q' \<longleftrightarrow> wq_step q q' \<and> (\<forall>t. pcs q' t = Idle \<longleftrightarrow> pcs q t = Idle)"

text \<open>What is left to do when no thread calls \<open>DoPacketSend\<close> any more.\<close>

inductive drain_step :: "'a send_queue \<Rightarrow> 'a send_queue \<Rightarrow> bool" where
  sq_inner: "inner_step (sq_queue s) q \<Longrightarrow> drain_step s (s\<lparr>sq_queue := q\<rparr>)"
| sq_added: "sq_pc s t = AddUnlock \<Longrightarrow>
    drain_step s (s\<lparr>sq_queue := goto t Idle ((sq_queue s)\<lparr>mtx := None\<rparr>), sq_posting := insert t (sq_posting s)\<rparr>)"
| sq_post: "t \<in> sq_posting s \<Longrightarrow>
    drain_step s (s\<lparr>sq_posting := sq_posting s - {t}, sq_signals := sq_signals s + 1\<rparr>)"
| sq_signal: "sq_pc s packet_thread = Idle \<Longrightarrow> 0 < sq_signals s \<Longrightarrow>
    drain_step s (s\<lparr>sq_queue := goto packet_thread RemLock (sq_queue s), sq_signals := sq_signals s - 1\<rparr>)"
| sq_removed: "sq_pc s packet_thread = RemUnlock x \<Longrightarrow>
    drain_step s (s\<lparr>sq_queue := goto packet_thread Idle ((sq_queue s)\<lparr>mtx := None\<rparr>),
                    sq_handled := sq_handled s @ [x]\<rparr>)"

inductive sq_step :: "'a send_queue \<Rightarrow> 'a send_queue \<Rightarrow> bool" where
  sq_send: "t \<noteq> packet_thread \<Longrightarrow> sq_pc s t = Idle \<Longrightarrow> t \<notin> sq_posting s \<Longrightarrow>
    sq_step s (s\<lparr>sq_queue := goto t (AddLock x) (sq_queue s)\<rparr>)"
| sq_drain: "drain_step s s' \<Longrightarrow> sq_step s s'"

inductive sq_reachable :: "'a send_queue \<Rightarrow> bool" where
  sq_start: "sq_reachable sq_init"
| sq_next: "sq_reachable s \<Longrightarrow> sq_step s s' \<Longrightarrow> sq_reachable s'"

section \<open>The queue runs as one of \<open>Wqueue\<close>\<close>

lemma drain_step_queue:
  assumes "drain_step s s'"
  shows "wq_step (sq_queue s) (sq_queue s') \<or> sq_queue s' = sq_queue s"
  using assms
proof (cases rule: drain_step.cases)
  case (sq_added t)
  then show ?thesis using add_unlock [of "sq_queue s" t] by simp
next
  case sq_signal
  then show ?thesis using call_remove [of "sq_queue s" packet_thread] by simp
next
  case (sq_removed x)
  then show ?thesis using rem_unlock [of "sq_queue s" packet_thread x] by simp
qed (simp_all add: inner_step_def)

lemma sq_queue_reachable: "sq_reachable s \<Longrightarrow> wq_reachable (sq_queue s)"
proof (induction rule: sq_reachable.induct)
  case sq_start
  show ?case by (simp add: sq_init_def wq_start)
next
  case (sq_next s s')
  from sq_next.hyps(2) show ?case
  proof (cases rule: sq_step.cases)
    case (sq_send t x)
    then show ?thesis
      using call_add [of "sq_queue s" t x] wq_next [OF sq_next.IH] by simp
  next
    case sq_drain
    then show ?thesis
      using drain_step_queue wq_next [OF sq_next.IH] sq_next.IH by metis
  qed
qed

section \<open>Signals and packets\<close>

text \<open>
  Each packet in the list has a signal: one that is pending, one that the packet-handling thread has
  taken and not yet followed up, or one that the thread that added the packet will post.
\<close>

fun adding :: "'a wq_pc \<Rightarrow> bool" where
  "adding Idle = True"
| "adding (AddLock x) = True"
| "adding (AddPush x) = True"
| "adding AddSignal = True"
| "adding AddUnlock = True"
| "adding _ = False"

fun removing :: "'a wq_pc \<Rightarrow> bool" where
  "removing Idle = True"
| "removing RemLock = True"
| "removing RemTest = True"
| "removing RemFront = True"
| "removing (RemPop x) = True"
| "removing (RemUnlock x) = True"
| "removing _ = False"

fun owed :: "'a wq_pc \<Rightarrow> nat" where
  "owed RemLock = 1"
| "owed RemTest = 1"
| "owed RemFront = 1"
| "owed (RemPop x) = 1"
| "owed _ = 0"

fun has_pushed :: "'a wq_pc \<Rightarrow> bool" where
  "has_pushed AddSignal = True"
| "has_pushed AddUnlock = True"
| "has_pushed _ = False"

fun taken :: "'a wq_pc \<Rightarrow> 'a list" where
  "taken (RemUnlock x) = [x]"
| "taken _ = []"

definition to_post :: "(nat \<Rightarrow> 'a wq_pc) \<Rightarrow> nat set \<Rightarrow> nat set" where
  "to_post ps P = P \<union> {t. has_pushed (ps t)}"

definition roles_ok :: "(nat \<Rightarrow> 'a wq_pc) \<Rightarrow> nat set \<Rightarrow> bool" where
  "roles_ok ps P \<longleftrightarrow> removing (ps packet_thread) \<and> (\<forall>t. t \<noteq> packet_thread \<longrightarrow> adding (ps t)) \<and>
     finite {t. ps t \<noteq> Idle} \<and> finite P \<and> packet_thread \<notin> P \<and> (\<forall>t \<in> P. ps t = Idle)"

definition sq_inv :: "'a send_queue \<Rightarrow> bool" where
  "sq_inv s \<longleftrightarrow> roles_ok (sq_pc s) (sq_posting s) \<and>
     length (mq (sq_queue s)) =
       sq_signals s + card (to_post (sq_pc s) (sq_posting s)) + owed (sq_pc s packet_thread) \<and>
     popped (sq_queue s) = sq_handled s @ taken (sq_pc s packet_thread)"

lemma finite_to_post: "roles_ok ps P \<Longrightarrow> finite (to_post ps P)"
proof -
  assume ok: "roles_ok ps P"
  then have "finite (P \<union> {t. ps t \<noteq> Idle})"
    by (simp add: roles_ok_def)
  then show ?thesis
    by (rule finite_subset [rotated]) (auto simp: to_post_def)
qed

lemma to_post_upd:
  "to_post (ps(t := p)) P =
     (if t \<in> P \<or> has_pushed p then insert t (to_post ps P) else to_post ps P - {t})"
  by (auto simp: to_post_def)

lemma roles_ok_upd:
  assumes "roles_ok ps P" and "t \<notin> P" and "if t = packet_thread then removing p else adding p"
  shows "roles_ok (ps(t := p)) P"
proof -
  have "finite (insert t {u. ps u \<noteq> Idle})"
    using assms(1) by (simp add: roles_ok_def)
  then have "finite {u. (ps(t := p)) u \<noteq> Idle}"
    by (rule rev_finite_subset) auto
  then show ?thesis
    using assms by (auto simp: roles_ok_def)
qed

lemma roles_okD:
  assumes "roles_ok ps P"
  shows "\<not> adding (ps t) \<Longrightarrow> t = packet_thread" and "\<not> removing (ps t) \<Longrightarrow> t \<noteq> packet_thread"
    and "ps t \<noteq> Idle \<Longrightarrow> t \<notin> P" and "adding (ps t) \<or> removing (ps t)"
  using assms unfolding roles_ok_def by (auto, cases "t = packet_thread") auto

text \<open>One thread moves from a point of its operation to another.\<close>

lemma sq_inv_move:
  assumes inv: "sq_inv s" and t: "t \<notin> sq_posting s"
    and role: "if t = packet_thread then removing p else adding p"
    and len: "length (mq q) + owed (sq_pc s packet_thread) + (if has_pushed (sq_pc s t) then 1 else 0) =
      length (mq (sq_queue s)) + owed ((pcs q) packet_thread) + (if has_pushed p then 1 else 0)"
    and pop: "popped q = sq_handled s @ taken (pcs q packet_thread)" and pcs: "pcs q = (sq_pc s)(t := p)"
  shows "sq_inv (s\<lparr>sq_queue := q\<rparr>)"
proof -
  let ?P = "sq_posting s"
  have ok: "roles_ok (sq_pc s) ?P"
    using inv by (simp add: sq_inv_def)
  have ok': "roles_ok (pcs q) ?P"
    unfolding pcs using ok t role by (rule roles_ok_upd)
  have fin: "finite (to_post (sq_pc s) ?P)"
    using ok by (rule finite_to_post)
  have mem: "t \<in> to_post (sq_pc s) ?P \<longleftrightarrow> has_pushed (sq_pc s t)"
    using t by (simp add: to_post_def)
  have "card (to_post (pcs q) ?P) + (if has_pushed (sq_pc s t) then 1 else 0) =
      card (to_post (sq_pc s) ?P) + (if has_pushed p then 1 else 0)"
    unfolding pcs to_post_upd using t fin mem card.remove [OF fin, of t]
    by (auto simp: card_insert_if insert_absorb)
  then show ?thesis
    using inv len ok' pop by (simp add: sq_inv_def)
qed

lemma sq_invD:
  assumes "sq_inv s"
  shows "roles_ok (sq_pc s) (sq_posting s)"
    and "length (mq (sq_queue s)) =
      sq_signals s + card (to_post (sq_pc s) (sq_posting s)) + owed (sq_pc s packet_thread)"
    and "popped (sq_queue s) = sq_handled s @ taken (sq_pc s packet_thread)"
  using assms by (simp_all add: sq_inv_def)

text \<open>
  What a step inside the queue does, in a state with the invariant: one thread goes on, closer to the
  end of its operation, and the packet it brings, if any, is then in the list.
\<close>

fun rank :: "'a wq_pc \<Rightarrow> nat" where
  "rank (AddLock x) = 11"
| "rank (AddPush x) = 10"
| "rank AddSignal = 9"
| "rank AddUnlock = 8"
| "rank RemLock = 5"
| "rank RemTest = 4"
| "rank RemFront = 3"
| "rank (RemPop x) = 2"
| "rank (RemUnlock x) = 1"
| "rank _ = 0"

fun entering :: "'a wq_pc \<Rightarrow> 'a multiset" where
  "entering (AddLock x) = {#x#}"
| "entering (AddPush x) = {#x#}"
| "entering _ = {#}"

definition pc_move :: "'a send_queue \<Rightarrow> 'a monitor \<Rightarrow> nat \<Rightarrow> 'a wq_pc \<Rightarrow> bool" where
  "pc_move s q t p \<longleftrightarrow> pcs q = (sq_pc s)(t := p) \<and> t \<notin> sq_posting s \<and>
     (if t = packet_thread then removing p else adding p) \<and>
     length (mq q) + owed (sq_pc s packet_thread) + (if has_pushed (sq_pc s t) then 1 else 0) =
       length (mq (sq_queue s)) + owed ((pcs q) packet_thread) + (if has_pushed p then 1 else 0) \<and>
     popped q = sq_handled s @ taken (pcs q packet_thread) \<and>
     rank p < rank (sq_pc s t) \<and>
     mset (pushed q) + entering p = mset (pushed (sq_queue s)) + entering (sq_pc s t)"

lemma inner_pc_move:
  assumes inv: "sq_inv s" and step: "inner_step (sq_queue s) q"
  shows "\<exists>t p. pc_move s q t p"
proof -
  note ok = sq_invD(1) [OF inv] and len = sq_invD(2) [OF inv] and pop = sq_invD(3) [OF inv]
  note D = roles_okD [OF ok]
  have enter: R if "sq_pc s t = Idle" "pcs q t \<noteq> Idle" for t R
    using that step by (simp add: inner_step_def)
  have leave: R if "sq_pc s t = r" "r \<noteq> Idle" "pcs q t = Idle" for t r R
    using that step by (simp add: inner_step_def)
  have outside: R if "sq_pc s t = r" "\<not> adding r" "\<not> removing r" for t r R
    using that D(4) [of t] by simp
  have moveI: "\<exists>t p. pc_move s q t p" if "sq_pc s u \<noteq> Idle" and "u \<notin> sq_posting s \<Longrightarrow> pc_move s q u r" for u r
    using that D(3) [of u] by blast
  from step have "wq_step (sq_queue s) q"
    by (simp add: inner_step_def)
  then show ?thesis
  proof (cases rule: wq_step.cases)
    case (add_lock t x)
    then show ?thesis using D(2) [of t] pop by (intro moveI [of t "AddPush x"]) (auto simp: pc_move_def)
  next
    case (add_push t x)
    then show ?thesis using D(2) [of t] pop by (intro moveI [of t AddSignal]) (auto simp: pc_move_def)
  next
    case (add_signal_none t)
    then show ?thesis using D(2) [of t] pop by (intro moveI [of t AddUnlock]) (auto simp: pc_move_def)
  next
    case (rem_lock t)
    then have "t = packet_thread" using D(1) [of t] by simp
    with rem_lock pop show ?thesis by (intro moveI [of t RemTest]) (auto simp: pc_move_def)
  next
    case (rem_wait t)
    then have "t = packet_thread" using D(1) [of t] by simp
    with rem_wait len show ?thesis by simp
  next
    case (rem_nonempty t)
    then have "t = packet_thread" using D(1) [of t] by simp
    with rem_nonempty pop show ?thesis by (intro moveI [of t RemFront]) (auto simp: pc_move_def)
  next
    case (rem_front t)
    then have "t = packet_thread" using D(1) [of t] by simp
    with rem_front pop show ?thesis by (intro moveI [of t "RemPop (hd (mq (sq_queue s)))"]) (auto simp: pc_move_def)
  next
    case (rem_pop t x)
    then have "t = packet_thread" using D(1) [of t] by simp
    with rem_pop pop len show ?thesis by (intro moveI [of t "RemUnlock x"]) (auto simp: pc_move_def)
  qed ((erule enter, simp; fail) | (erule outside, simp, simp; fail) | (erule leave, simp, simp; fail))+
qed

lemma sq_inv_inner:
  assumes inv: "sq_inv s" and step: "inner_step (sq_queue s) q"
  shows "sq_inv (s\<lparr>sq_queue := q\<rparr>)"
proof -
  obtain t p where "pc_move s q t p"
    using inner_pc_move [OF assms] by blast
  then show ?thesis
    using sq_inv_move [OF inv, of t p q] by (simp add: pc_move_def)
qed

lemma sq_inv_drain:
  assumes "drain_step s s'" and inv: "sq_inv s"
  shows "sq_inv s'"
proof -
  note ok = sq_invD(1) [OF inv] and len = sq_invD(2) [OF inv] and pop = sq_invD(3) [OF inv]
  note D = roles_okD [OF ok]
  from assms(1) show ?thesis
  proof (cases rule: drain_step.cases)
    case (sq_inner q)
    then show ?thesis using sq_inv_inner [OF inv] by simp
  next
    case (sq_added t)
    have t: "t \<noteq> packet_thread" "t \<notin> sq_posting s"
      using D(2,3) [of t] sq_added by auto
    have "to_post ((sq_pc s)(t := Idle)) (insert t (sq_posting s)) = to_post (sq_pc s) (sq_posting s)"
      using sq_added by (auto simp: to_post_def)
    moreover have "roles_ok ((sq_pc s)(t := Idle)) (insert t (sq_posting s))"
      using roles_ok_upd [OF ok t(2), of Idle] t(1) by (auto simp: roles_ok_def)
    ultimately show ?thesis
      using sq_added len pop t by (simp add: sq_inv_def)
  next
    case (sq_post t)
    have t: "t \<noteq> packet_thread" "sq_pc s t = Idle"
      using ok sq_post by (auto simp: roles_ok_def)
    have "to_post (sq_pc s) (sq_posting s - {t}) = to_post (sq_pc s) (sq_posting s) - {t}"
      and mem: "t \<in> to_post (sq_pc s) (sq_posting s)"
      using sq_post t by (auto simp: to_post_def)
    then have "card (to_post (sq_pc s) (sq_posting s)) = Suc (card (to_post (sq_pc s) (sq_posting s - {t})))"
      using card.remove [OF finite_to_post [OF ok] mem] by simp
    moreover have "roles_ok (sq_pc s) (sq_posting s - {t})"
      using ok by (auto simp: roles_ok_def)
    ultimately show ?thesis
      using sq_post len pop by (simp add: sq_inv_def)
  next
    case sq_signal
    then have "to_post ((sq_pc s)(packet_thread := RemLock)) (sq_posting s) = to_post (sq_pc s) (sq_posting s)"
      by (auto simp: to_post_def)
    moreover have "roles_ok ((sq_pc s)(packet_thread := RemLock)) (sq_posting s)"
      using ok by (intro roles_ok_upd) (auto simp: roles_ok_def)
    ultimately show ?thesis
      using sq_signal len pop by (simp add: sq_inv_def)
  next
    case (sq_removed x)
    then have "to_post ((sq_pc s)(packet_thread := Idle)) (sq_posting s) = to_post (sq_pc s) (sq_posting s)"
      by (auto simp: to_post_def)
    moreover have "roles_ok ((sq_pc s)(packet_thread := Idle)) (sq_posting s)"
      using ok by (intro roles_ok_upd) (auto simp: roles_ok_def)
    ultimately show ?thesis
      using sq_removed len pop by (simp add: sq_inv_def)
  qed
qed

lemma sq_inv_step:
  assumes "sq_step s s'" and inv: "sq_inv s"
  shows "sq_inv s'"
  using assms(1)
proof (cases rule: sq_step.cases)
  case (sq_send t x)
  have "sq_inv (s\<lparr>sq_queue := goto t (AddLock x) (sq_queue s)\<rparr>)"
    by (rule sq_inv_move [OF inv, of t "AddLock x"])
      (use sq_send sq_invD(3) [OF inv] in simp_all)
  then show ?thesis by (simp only: sq_send(1))
next
  case sq_drain
  then show ?thesis using inv by (rule sq_inv_drain)
qed

lemma reachable_sq_inv: "sq_reachable s \<Longrightarrow> sq_inv s"
proof (induction rule: sq_reachable.induct)
  case sq_start
  show ?case
    by (simp add: sq_inv_def sq_init_def monitor_init_def roles_ok_def to_post_def)
next
  case (sq_next s s')
  then show ?case by (blast intro: sq_inv_step)
qed

section \<open>The queue drains\<close>

text \<open>Sums over the threads that are inside the queue.\<close>

definition total :: "('a wq_pc \<Rightarrow> 'b :: comm_monoid_add) \<Rightarrow> (nat \<Rightarrow> 'a wq_pc) \<Rightarrow> 'b" where
  "total f ps = (\<Sum>t | ps t \<noteq> Idle. f (ps t))"

lemma total_upd:
  assumes fin: "finite {t. ps t \<noteq> Idle}" and idle: "f Idle = 0"
  shows "total f (ps(t := p)) + f (ps t) = total f ps + f p"
proof -
  let ?A = "{u. ps u \<noteq> Idle} - {t}"
  have all: "total f qs = f (qs t) + (\<Sum>u \<in> ?A. f (ps u))" if "\<And>u. u \<noteq> t \<Longrightarrow> qs u = ps u" for qs
  proof -
    have "total f qs = (\<Sum>u \<in> insert t ?A. f (qs u))"
      unfolding total_def using fin that idle by (intro sum.mono_neutral_left) auto
    also have "\<dots> = f (qs t) + (\<Sum>u \<in> ?A. f (qs u))"
      using fin by (subst sum.insert) auto
    also have "(\<Sum>u \<in> ?A. f (qs u)) = (\<Sum>u \<in> ?A. f (ps u))"
      using that by (intro sum.cong) auto
    finally show ?thesis .
  qed
  show ?thesis
    using all [of ps] all [of "ps(t := p)"] by (simp add: ac_simps)
qed

definition sq_work :: "'a send_queue \<Rightarrow> nat" where
  "sq_work s = total rank (sq_pc s) + 7 * card (sq_posting s) + 6 * sq_signals s"

text \<open>The packets given to \<open>DoPacketSend\<close> so far.\<close>

definition sq_given :: "'a send_queue \<Rightarrow> 'a multiset" where
  "sq_given s = mset (pushed (sq_queue s)) + total entering (sq_pc s)"

lemma roles_ok_finite: "roles_ok ps P \<Longrightarrow> finite {t. ps t \<noteq> Idle}" "roles_ok ps P \<Longrightarrow> finite P"
  by (simp_all add: roles_ok_def)

lemma drain_step_work:
  assumes "drain_step s s'" and inv: "sq_inv s"
  shows "sq_work s' < sq_work s \<and> sq_given s' = sq_given s"
proof -
  note ok = sq_invD(1) [OF inv]
  note fin = roles_ok_finite [OF ok]
  note ranks = total_upd [OF fin(1), of rank] and enters = total_upd [OF fin(1), of entering]
  from assms(1) show ?thesis
  proof (cases rule: drain_step.cases)
    case (sq_inner q)
    obtain t p where m: "pc_move s q t p"
      using inner_pc_move [OF inv sq_inner(2)] by blast
    then have q: "pcs q = (sq_pc s)(t := p)" "rank p < rank (sq_pc s t)"
        "mset (pushed q) + entering p = mset (pushed (sq_queue s)) + entering (sq_pc s t)"
      by (simp_all add: pc_move_def)
    have "mset (pushed q) + total entering (pcs q) + entering (sq_pc s t) =
        mset (pushed (sq_queue s)) + total entering (sq_pc s) + entering (sq_pc s t)"
      using q(1,3) enters [of t p] by (metis add.assoc add.commute entering.simps(3))
    then show ?thesis
      using sq_inner q(1,2) ranks [of t p] by (simp add: sq_work_def sq_given_def)
  next
    case (sq_added t)
    then have "t \<notin> sq_posting s"
      using roles_okD(3) [OF ok, of t] by simp
    then show ?thesis
      using sq_added fin(2) ranks [of t Idle] enters [of t Idle] by (simp add: sq_work_def sq_given_def)
  next
    case (sq_post t)
    then show ?thesis
      using fin(2) card.remove [OF fin(2), of t] by (simp add: sq_work_def sq_given_def)
  next
    case sq_signal
    then show ?thesis
      using ranks [of packet_thread RemLock] enters [of packet_thread RemLock]
      by (simp add: sq_work_def sq_given_def)
  next
    case (sq_removed x)
    then show ?thesis
      using ranks [of packet_thread Idle] enters [of packet_thread Idle]
      by (simp add: sq_work_def sq_given_def)
  qed
qed

text \<open>Until nothing is left to do, some thread can go on.\<close>

definition sq_quiet :: "'a send_queue \<Rightarrow> bool" where
  "sq_quiet s \<longleftrightarrow> (\<forall>t. sq_pc s t = Idle) \<and> sq_posting s = {} \<and> sq_signals s = 0"

lemma inner_stepI:
  assumes "wq_step (sq_queue s) q" and "pcs q = (sq_pc s)(t := p)" and "sq_pc s t \<noteq> Idle" and "p \<noteq> Idle"
  shows "\<exists>s'. drain_step s s'"
proof -
  have "inner_step (sq_queue s) q"
    using assms by (auto simp: inner_step_def)
  then show ?thesis by (blast intro: sq_inner)
qed

lemma inside_moves:
  assumes inv: "sq_inv s" and mutex: "mutex_inv (sq_queue s)"
    and t: "sq_pc s t \<noteq> Idle" and turn: "holds (sq_pc s t) \<or> mtx (sq_queue s) = None"
  shows "\<exists>s'. drain_step s s'"
proof -
  note ok = sq_invD(1) [OF inv] and len = sq_invD(2) [OF inv]
  note D = roles_okD [OF ok]
  have no_wait: "sq_pc s w \<noteq> RemWait" for w
    using D(4) [of w] by auto
  show ?thesis
  proof (cases "sq_pc s t")
    case (AddLock x)
    then show ?thesis using turn inner_stepI [OF add_lock [of _ t x]] by simp
  next
    case (AddPush x)
    then show ?thesis using inner_stepI [OF add_push [of _ t x]] by simp
  next
    case AddSignal
    then show ?thesis using no_wait inner_stepI [OF add_signal_none [of "sq_queue s" t]] by simp
  next
    case AddUnlock
    then show ?thesis using sq_added by blast
  next
    case RemLock
    then show ?thesis using turn inner_stepI [OF rem_lock [of "sq_queue s" t], of t RemTest] by simp
  next
    case RemTest
    then have "t = packet_thread" using D(1) [of t] by simp
    then have "mq (sq_queue s) \<noteq> []" using RemTest len by auto
    then show ?thesis using RemTest inner_stepI [OF rem_nonempty [of "sq_queue s" t], of t RemFront] by simp
  next
    case RemFront
    then show ?thesis using inner_stepI [OF rem_front [of "sq_queue s" t], of t "RemPop (hd (mq (sq_queue s)))"] by simp
  next
    case (RemPop x)
    then show ?thesis using inner_stepI [OF rem_pop [of "sq_queue s" t x], of t "RemUnlock x"] by simp
  next
    case (RemUnlock x)
    then have "t = packet_thread" using D(1) [of t] by simp
    then show ?thesis using sq_removed [of s x] RemUnlock by auto
  qed (use t D(4) [of t] in simp_all)
qed

lemma not_quiet_moves:
  assumes reach: "sq_reachable s" and busy: "\<not> sq_quiet s"
  shows "\<exists>s'. drain_step s s'"
proof (cases "\<exists>t. sq_pc s t \<noteq> Idle")
  case True
  then obtain t where t: "sq_pc s t \<noteq> Idle" by blast
  have inv: "sq_inv s" and mutex: "mutex_inv (sq_queue s)"
    using reach by (simp_all add: reachable_sq_inv reachable_mutex_inv sq_queue_reachable)
  show ?thesis
  proof (cases "mtx (sq_queue s)")
    case None
    then show ?thesis using inside_moves [OF inv mutex t] by simp
  next
    case (Some h)
    then have "holds (sq_pc s h)"
      using mutex unfolding mutex_inv_def by metis
    then show ?thesis using inside_moves [OF inv mutex, of h] by (cases "sq_pc s h") auto
  qed
next
  case False
  with busy consider t where "t \<in> sq_posting s" | "0 < sq_signals s" and "sq_pc s packet_thread = Idle"
    by (auto simp: sq_quiet_def)
  then show ?thesis by cases (blast intro: sq_post sq_signal)+
qed

lemma quiet_handled:
  assumes reach: "sq_reachable s" and quiet: "sq_quiet s"
  shows "sq_handled s = pushed (sq_queue s) \<and> mset (sq_handled s) = sq_given s"
proof -
  have "sq_inv s" and "popped (sq_queue s) @ mq (sq_queue s) = pushed (sq_queue s)"
    using reach by (simp_all add: reachable_sq_inv queue_conserves sq_queue_reachable)
  then show ?thesis
    using quiet by (simp add: sq_inv_def sq_quiet_def to_post_def sq_given_def total_def)
qed

interpretation drains: settling drain_step "\<lambda>s. sq_reachable s \<and> sq_given s = g" sq_work sq_quiet for g
proof unfold_locales
  fix s s' :: "'a send_queue"
  assume inv: "sq_reachable s \<and> sq_given s = g"
  then have sq: "sq_inv s" by (simp add: reachable_sq_inv)
  show "sq_reachable s' \<and> sq_given s' = g" if "drain_step s s'"
    using inv that drain_step_work [OF that sq] by (auto intro: sq_next sq_drain)
  show "sq_work s' < sq_work s" if "drain_step s s'"
    using drain_step_work [OF that sq] by simp
  show "\<exists>s'. drain_step s s'" if "\<not> sq_quiet s"
    using inv that by (simp add: not_quiet_moves)
qed

section \<open>A concrete run\<close>

text \<open>Thread 1 has added the packet \<open>x\<close> and posted the signal; thread 2 is in \<open>add\<close> with the packet \<open>y\<close>.\<close>

definition demo_queue :: "'a \<Rightarrow> 'a \<Rightarrow> 'a send_queue" where
  "demo_queue x y = \<lparr>sq_queue = demo_state [x] None ((\<lambda>_. Idle)(2 := AddLock y)) [x],
     sq_posting = {}, sq_signals = 1, sq_handled = []\<rparr>"

lemma sq_next_eq: "sq_reachable s \<Longrightarrow> sq_step s s1 \<Longrightarrow> s1 = s' \<Longrightarrow> sq_reachable s'"
  using sq_next by blast

lemma sq_inner_eq:
  assumes "sq_reachable s" and "wq_step (sq_queue s) q" and "pcs q = (sq_pc s)(t := p)"
    and "sq_pc s t \<noteq> Idle" and "p \<noteq> Idle" and "s\<lparr>sq_queue := q\<rparr> = s'"
  shows "sq_reachable s'"
proof -
  have "inner_step (sq_queue s) q"
    using assms by (auto simp: inner_step_def)
  then show ?thesis
    using assms(1,6) by (blast intro: sq_next sq_drain sq_inner)
qed

lemma demo_queue_reachable: "sq_reachable (demo_queue x y)"
proof -
  let ?i = "\<lambda>_. Idle"
  let ?s = "\<lambda>q m p a P n. \<lparr>sq_queue = demo_state q m p a, sq_posting = P, sq_signals = n, sq_handled = []\<rparr>"
  have 0: "sq_reachable (?s [] None ?i [] {} 0)"
    using sq_start by (simp add: sq_init_def monitor_init_def)
  have 1: "sq_reachable (?s [] None (?i(1 := AddLock x)) [] {} 0)"
    by (rule sq_next_eq [OF 0 sq_send [of 1 _ x]]) (simp_all add: packet_thread_def)
  have 2: "sq_reachable (?s [] (Some 1) (?i(1 := AddPush x)) [] {} 0)"
    by (rule sq_inner_eq [OF 1 add_lock [of _ 1 x], of 1 "AddPush x"]) simp_all
  have 3: "sq_reachable (?s [x] (Some 1) (?i(1 := AddSignal)) [x] {} 0)"
    by (rule sq_inner_eq [OF 2 add_push [of _ 1 x], of 1 AddSignal]) simp_all
  have 4: "sq_reachable (?s [x] (Some 1) (?i(1 := AddUnlock)) [x] {} 0)"
    by (rule sq_inner_eq [OF 3 add_signal_none [of _ 1], of 1 AddUnlock]) simp_all
  have 5: "sq_reachable (?s [x] None ?i [x] {1} 0)"
    by (rule sq_next_eq [OF 4 sq_drain [OF sq_added [of _ 1]]]) (simp_all add: fun_upd_idem)
  have 6: "sq_reachable (?s [x] None ?i [x] {} 1)"
    by (rule sq_next_eq [OF 5 sq_drain [OF sq_post [of 1]]]) simp_all
  have "sq_reachable (?s [x] None (?i(2 := AddLock y)) [x] {} 1)"
    by (rule sq_next_eq [OF 6 sq_send [of 2 _ y]]) (simp_all add: packet_thread_def)
  then show ?thesis by (simp add: demo_queue_def)
qed

section \<open>Properties\<close>

text \<open>
  Claim C4. In every interleaving, the packets in the send queue are as many as the signals pending, plus the
  threads that have added a packet and not yet posted theirs, plus the signal the packet-handling
  thread has taken without having its packet yet. So its call of \<open>remove\<close> never waits, and the packets it has
  handled are the ones added first, in order.
\<close>

theorem send_queue_signals:
  assumes "sq_reachable s"
  shows "sq_pc s packet_thread \<noteq> RemWait \<and>
    length (mq (sq_queue s)) =
      sq_signals s + card {t. t \<in> sq_posting s \<or> has_pushed (sq_pc s t)} + owed (sq_pc s packet_thread) \<and>
    prefix (sq_handled s) (pushed (sq_queue s))"
proof -
  note inv = reachable_sq_inv [OF assms]
  have "{t. t \<in> sq_posting s \<or> has_pushed (sq_pc s t)} = to_post (sq_pc s) (sq_posting s)"
    by (auto simp: to_post_def)
  moreover have "sq_pc s packet_thread \<noteq> RemWait"
    using roles_okD(4) [OF sq_invD(1) [OF inv], of packet_thread] by auto
  moreover have "pushed (sq_queue s) = sq_handled s @ taken (sq_pc s packet_thread) @ mq (sq_queue s)"
    using queue_conserves [OF sq_queue_reachable [OF assms]] sq_invD(3) [OF inv] by simp
  ultimately show ?thesis
    using sq_invD(2) [OF inv] by simp
qed

theorem send_queue_signals_witness:
  "length (mq (sq_queue (demo_queue 7 (8 :: nat)))) =
     1 + card {t. has_pushed (sq_pc (demo_queue 7 (8 :: nat)) t)} \<and> length (mq (sq_queue (demo_queue 7 (8 :: nat)))) = 1"
  using send_queue_signals [OF demo_queue_reachable [of 7 "8 :: nat"]] by (simp add: demo_queue_def packet_thread_def)

text \<open>
  Once no thread starts another \<open>DoPacketSend\<close>, the queue drains under every schedule: a run from a
  reachable state has at most \<open>sq_work s\<close> steps, and when no step is possible any more, every packet
  given to \<open>DoPacketSend\<close> has been handled exactly once, in the order of the list. No thread waits for ever.
\<close>

theorem send_queue_drains:
  assumes "sq_reachable s"
  shows "\<forall>n s'. (drain_step ^^ n) s s' \<longrightarrow>
    n \<le> sq_work s \<and>
    ((\<exists>s''. drain_step s' s'') \<or>
     sq_handled s' = pushed (sq_queue s') \<and> mset (sq_handled s') = sq_given s)"
proof (intro allI impI)
  fix n s'
  assume "(drain_step ^^ n) s s'"
  note run = drains.run [OF this, of "sq_given s"] and ends = drains.settles [OF this, of "sq_given s"]
  show "n \<le> sq_work s \<and>
    ((\<exists>s''. drain_step s' s'') \<or>
     sq_handled s' = pushed (sq_queue s') \<and> mset (sq_handled s') = sq_given s)"
    using run ends assms quiet_handled [of s'] by auto
qed

lemma demo_queue_work: "sq_work (demo_queue x y) = 17" and demo_queue_given: "sq_given (demo_queue x y) = {#x, y#}"
proof -
  have "{t. sq_pc (demo_queue x y) t \<noteq> Idle} = {2}"
    by (auto simp: demo_queue_def)
  then show "sq_work (demo_queue x y) = 17" and "sq_given (demo_queue x y) = {#x, y#}"
    by (simp_all add: sq_work_def sq_given_def total_def demo_queue_def)
qed

theorem send_queue_drains_witness:
  "\<exists>n s'. (drain_step ^^ n) (demo_queue 7 (8 :: nat)) s' \<and> n \<le> 17 \<and> mset (sq_handled s') = {#7, 8#}"
proof -
  note all = send_queue_drains [OF demo_queue_reachable [of 7 "8 :: nat"], unfolded demo_queue_work demo_queue_given, rule_format]
  have "sq_reachable (demo_queue 7 (8 :: nat)) \<and> sq_given (demo_queue 7 (8 :: nat)) = {#7, 8#}"
    by (simp add: demo_queue_reachable demo_queue_given)
  from drains.ends [OF this]
  obtain n s' where "(drain_step ^^ n) (demo_queue 7 (8 :: nat)) s'" "\<nexists>s''. drain_step s' s''"
    by blast
  then show ?thesis using all by blast
qed

end
