(* ===== verification/Packet_Threads.thy ===== *)
theory Packet_Threads
  imports Send_Queue Data_Plane
begin

text \<open>
  The threads of the send queue against the operations of \<open>Data_Plane\<close>. The threads in \<open>DoPacketSend\<close> and the
  packet-handling thread interleave inside these operations (\<open>sq_step\<close>), the link-setup thread changes the
  manager at any time; every run does what some sequence of whole calls of \<open>DoPacketSend\<close> and \<open>OnMessage\<close> does.
  A call of \<open>DoPacketSend\<close> takes place where it pushes its packet, one of \<open>OnMessage\<close> where it calls
  \<open>HandlePacket\<close>, which \<open>Link_Threads\<close> takes apart further.
\<close>

section \<open>The threads\<close>

text \<open>
  The send queue, the manager and what has been sent. The packet a call of \<open>remove\<close> returns is handled with the
  manager of that moment and whatever the transports answer; the manager keeps its tables in order.
\<close>

type_synonym packet_state = "byte list send_queue \<times> mgr \<times> io_event list"

definition mgr_ready :: "mgr \<Rightarrow> bool" where
  "mgr_ready m \<longleftrightarrow> links_ok m \<and> forward_socket m \<noteq> None"

inductive pt_step :: "jingle \<Rightarrow> packet_state \<Rightarrow> packet_state result \<Rightarrow> bool" for jg where
  pt_queue: "sq_step s s' \<Longrightarrow> sq_handled s' = sq_handled s \<Longrightarrow> pt_step jg (s, m, out) (Inr (s', m, out))"
| pt_handle: "sq_step s s' \<Longrightarrow> sq_handled s' = sq_handled s @ [data] \<Longrightarrow>
    r = sbind (HandlePacket jg ts junk data m) (\<lambda>es. Inr (s', m, out @ es)) \<Longrightarrow> pt_step jg (s, m, out) r"
| pt_links: "mgr_ready m' \<Longrightarrow> pt_step jg (s, m, out) (Inr (s, m', out))"

section \<open>Whole operations\<close>

inductive atomic_step :: "jingle \<Rightarrow> plane \<times> io_event list \<Rightarrow> plane \<times> io_event list \<Rightarrow> bool" for jg where
  at_send: "DoPacketSend buf n p = Inr (r, p', es) \<Longrightarrow> atomic_step jg (p, out) (p', out)"
| at_message: "0 < pl_signals p \<Longrightarrow> OnMessage jg ts junk kMsgQueueSignal p = Some (Inr (p', es)) \<Longrightarrow>
    atomic_step jg (p, out) (p', out @ es)"
| at_links: "atomic_step jg (p, out) (p\<lparr>pl_mgr := m\<rparr>, out)"

text \<open>They are steps of the packet path.\<close>

lemma atomic_pl_step: "atomic_step jg (p, out) (p', out') \<Longrightarrow> pl_step jg p p'"
  by (auto elim!: atomic_step.cases intro: pl_send pl_signal pl_links)

section \<open>The simulation\<close>

text \<open>The packets not handled yet, as the operations see them: in the list, each with its signal.\<close>

definition waiting :: "'a send_queue \<Rightarrow> 'a list" where
  "waiting s = drop (length (sq_handled s)) (pushed (sq_queue s))"

lemma waiting_queue:
  assumes "sq_reachable s"
  shows "waiting s = taken (sq_pc s packet_thread) @ mq (sq_queue s)" and "pushed (sq_queue s) = sq_handled s @ waiting s"
proof -
  have "pushed (sq_queue s) = sq_handled s @ taken (sq_pc s packet_thread) @ mq (sq_queue s)"
    using queue_conserves [OF sq_queue_reachable [OF assms]] sq_invD(3) [OF reachable_sq_inv [OF assms]] by simp
  then show "waiting s = taken (sq_pc s packet_thread) @ mq (sq_queue s)"
      and "pushed (sq_queue s) = sq_handled s @ waiting s"
    by (simp_all add: waiting_def)
qed

text \<open>A step leaves these packets alone, or adds one, or hands the first one over.\<close>

lemma drain_step_effect:
  assumes "drain_step s s'" and "sq_reachable s"
  shows "(sq_handled s' = sq_handled s \<and> (\<exists>l. pushed (sq_queue s') = pushed (sq_queue s) @ l \<and> length l \<le> 1)) \<or>
    (\<exists>x. sq_handled s' = sq_handled s @ [x] \<and> pushed (sq_queue s') = pushed (sq_queue s))"
  using assms(1)
proof (cases rule: drain_step.cases)
  case (sq_inner q)
  then have "wq_step (sq_queue s) q"
    by (simp add: inner_step_def)
  then have "\<exists>l. pushed q = pushed (sq_queue s) @ l \<and> length l \<le> 1"
    using reachable_queue_inv [OF sq_queue_reachable [OF assms(2)]]
    by (cases rule: wq_step_op) fastforce+
  then show ?thesis using sq_inner by simp
qed simp_all

lemma sq_step_effect:
  assumes step: "sq_step s s'" and reach: "sq_reachable s"
  obtains (stay) "sq_handled s' = sq_handled s" "waiting s' = waiting s"
  | (add) x where "sq_handled s' = sq_handled s" "waiting s' = waiting s @ [x]"
  | (handle) x where "sq_handled s' = sq_handled s @ [x]" "waiting s = x # waiting s'"
proof -
  have "sq_reachable s'"
    using reach step by (rule sq_next)
  note w = waiting_queue(2) [OF this] and w0 = waiting_queue(2) [OF reach]
  have "(sq_handled s' = sq_handled s \<and> (\<exists>l. pushed (sq_queue s') = pushed (sq_queue s) @ l \<and> length l \<le> 1)) \<or>
    (\<exists>x. sq_handled s' = sq_handled s @ [x] \<and> pushed (sq_queue s') = pushed (sq_queue s))"
    using step by (cases rule: sq_step.cases) (simp, use drain_step_effect [OF _ reach] in blast)
  then consider l where "sq_handled s' = sq_handled s" "pushed (sq_queue s') = pushed (sq_queue s) @ l" "length l \<le> 1"
    | x where "sq_handled s' = sq_handled s @ [x]" "pushed (sq_queue s') = pushed (sq_queue s)"
    by blast
  then show ?thesis
  proof cases
    case 1
    then have "waiting s' = waiting s @ l"
      using w w0 by simp
    then show ?thesis using stay add 1 by (cases l) auto
  next
    case 2
    then show ?thesis using handle w w0 by simp
  qed
qed

definition plane_of :: "mgr \<Rightarrow> byte list list \<Rightarrow> plane" where
  "plane_of m l = (plane_new m True)\<lparr>g_send_queue := \<lparr>m_queue = l\<rparr>, pl_signals := length l\<rparr>"

lemma atomic_add: "atomic_step jg (plane_of m l, out) (plane_of m (l @ [x]), out)"
proof -
  have "DoPacketSend x (length x) (plane_of m l) = Inr (length x, plane_of m (l @ [x]), [PostQueueSignal])"
    by (simp add: DoPacketSend_def mem_read_def plane_of_def plane_new_def wq_add_def)
  then show ?thesis by (rule at_send)
qed

lemma atomic_handle:
  assumes "HandlePacket jg ts junk x m = Inr es"
  shows "atomic_step jg (plane_of m (x # l), out) (plane_of m l, out @ es)"
proof (rule at_message)
  show "0 < pl_signals (plane_of m (x # l))"
      and "OnMessage jg ts junk kMsgQueueSignal (plane_of m (x # l)) = Some (Inr (plane_of m l, es))"
    using assms by (simp_all add: plane_of_def plane_new_def OnMessage_def HandleQueueSignal_w_def wq_remove_def)
qed

lemma atomic_links: "atomic_step jg (plane_of m l, out) (plane_of m' l, out)"
  using at_links [of jg "plane_of m l" out m'] by (simp add: plane_of_def plane_new_def)

fun pt_rel :: "packet_state \<Rightarrow> plane \<times> io_event list \<Rightarrow> bool" where
  "pt_rel (s, m, out) a \<longleftrightarrow> sq_reachable s \<and> mgr_ready m \<and> a = (plane_of m (waiting s), out)"

interpretation packets: safe_simulation "pt_step jg" "atomic_step jg" pt_rel for jg
proof unfold_locales
  fix c a r
  assume rel: "pt_rel c a" and step: "pt_step jg c r"
  from step show "\<exists>c' a'. r = Inr c' \<and> (a' = a \<or> atomic_step jg a a') \<and> pt_rel c' a'"
  proof (cases rule: pt_step.cases)
    case (pt_queue s s' m out)
    then have s: "sq_reachable s" "mgr_ready m" "a = (plane_of m (waiting s), out)"
      using rel by simp_all
    have "waiting s' = waiting s \<or> (\<exists>x. waiting s' = waiting s @ [x])"
      using sq_step_effect [OF pt_queue(3) s(1)] pt_queue(4) by (metis append_self_conv not_Cons_self2)
    then show ?thesis
      using pt_queue(2) s sq_next [OF s(1) pt_queue(3)] atomic_add by auto
  next
    case (pt_handle s s' data ts junk m out)
    then have s: "sq_reachable s" "mgr_ready m" "a = (plane_of m (waiting s), out)"
      using rel by simp_all
    obtain es where es: "HandlePacket jg ts junk data m = Inr es"
      using HandlePacket_total s(2) unfolding mgr_ready_def by blast
    have "waiting s = data # waiting s'"
      using sq_step_effect [OF pt_handle(2) s(1)] pt_handle(3) by (metis append_self_conv last_snoc not_Cons_self2)
    then show ?thesis
      using pt_handle(4) s sq_next [OF s(1) pt_handle(2)] es atomic_handle [OF es] by auto
  next
    case (pt_links m' s m out)
    then show ?thesis using rel atomic_links by auto
  qed
qed

section \<open>A concrete run\<close>

text \<open>Every run of the send queue is one of the threads, whatever manager is ready for it.\<close>

lemma reachable_run:
  assumes "sq_reachable s" and m: "mgr_ready m"
  shows "\<exists>out. (\<lambda>c c'. pt_step jg c (Inr c'))\<^sup>*\<^sup>* (sq_init, m, []) (s, m, out)"
  using assms(1)
proof (induction rule: sq_reachable.induct)
  case sq_start
  show ?case by blast
next
  case (sq_next s s')
  then obtain out where run: "(\<lambda>c c'. pt_step jg c (Inr c'))\<^sup>*\<^sup>* (sq_init, m, []) (s, m, out)"
    by blast
  have "\<exists>out'. pt_step jg (s, m, out) (Inr (s', m, out'))"
    using sq_next.hyps(2,1)
  proof (cases rule: sq_step_effect)
    case (handle x)
    obtain es where es: "HandlePacket jg (demo_ts True) (\<lambda>_. 0) x m = Inr es"
      using HandlePacket_total m unfolding mgr_ready_def by blast
    have "pt_step jg (s, m, out) (Inr (s', m, out @ es))"
      by (rule pt_handle [OF sq_next.hyps(2) handle(1), where ts = "demo_ts True" and junk = "\<lambda>_. 0"])
        (simp add: es)
    then show ?thesis by blast
  qed (use sq_next.hyps(2) pt_queue in blast)+
  then show ?case
    using run by (blast intro: rtranclp.rtrancl_into_rtrancl)
qed

lemma demo_drained: "\<exists>s. sq_reachable s \<and> sq_quiet s \<and> mset (sq_handled s) = {#x, y#}"
proof -
  have start: "sq_reachable (demo_queue x y) \<and> sq_given (demo_queue x y) = {#x, y#}"
    by (simp add: demo_queue_reachable demo_queue_given)
  obtain n s where run: "(drain_step ^^ n) (demo_queue x y) s" and last: "\<nexists>s'. drain_step s s'"
    using drains.ends [OF start] by blast
  then have "sq_reachable s" "sq_given s = {#x, y#}" "sq_quiet s"
    using drains.run [OF run start] drains.settles [OF run start] by auto
  then show ?thesis using quiet_handled [of s] by auto
qed

section \<open>Properties\<close>

text \<open>
  The threads of the send queue refine the operations of the data plane: whatever the interleaving of
  the threads that add packets, the one that handles them and the one that changes the links, no packet is
  handled with a fault, and what has been sent, the manager and the packets not handled yet are those after
  some sequence of whole calls of \<open>DoPacketSend\<close> and, each with a signal pending, of \<open>OnMessage\<close>.
\<close>

theorem send_queue_refines_operations:
  assumes "(\<lambda>c c'. pt_step jg c (Inr c'))\<^sup>*\<^sup>* (sq_init, m0, []) (s, m, out)"
    and "links_ok m0" and "forward_socket m0 \<noteq> None"
  shows "(\<exists>p. (atomic_step jg)\<^sup>*\<^sup>* (plane_new m0 True, []) (p, out) \<and> pl_mgr p = m \<and>
      m_queue (g_send_queue p) = taken (sq_pc s packet_thread) @ mq (sq_queue s) \<and>
      pl_signals p = length (m_queue (g_send_queue p))) \<and>
    (\<forall>f. \<not> pt_step jg (s, m, out) (Inl f))"
proof -
  have "waiting sq_init = []"
    by (simp add: waiting_def sq_init_def monitor_init_def)
  then have "plane_of m0 (waiting sq_init) = plane_new m0 True"
    by (simp add: plane_of_def plane_new_def wq_new_def)
  then have start: "pt_rel (sq_init, m0, []) (plane_new m0 True, [])"
    using assms(2,3) sq_start by (simp add: mgr_ready_def)
  obtain a where "(atomic_step jg)\<^sup>*\<^sup>* (plane_new m0 True, []) a" "pt_rel (s, m, out) a"
    using packets.runs_related [OF assms(1) start] by blast
  moreover have "\<not> pt_step jg (s, m, out) (Inl f)" for f
    by (rule packets.runs_no_fault [OF assms(1) start])
  ultimately show ?thesis
    by (auto simp: plane_of_def plane_new_def waiting_queue)
qed

theorem send_queue_refines_operations_witness:
  "\<exists>s out p. mset (sq_handled s) = {#[7], [8]#} \<and>
    (\<lambda>c c'. pt_step jingle0 c (Inr c'))\<^sup>*\<^sup>* (sq_init, demo_linked, []) (s, demo_linked, out) \<and>
    (atomic_step jingle0)\<^sup>*\<^sup>* (plane_new demo_linked True, []) (p, out) \<and> pl_mgr p = demo_linked"
proof -
  have m: "forward_socket demo_linked \<noteq> None"
    by (simp add: demo_linked_def)
  obtain s :: "byte list send_queue" where s: "sq_reachable s" "mset (sq_handled s) = {#[7], [8]#}"
    using demo_drained [of "[7]" "[8]"] by blast
  obtain out where "(\<lambda>c c'. pt_step jingle0 c (Inr c'))\<^sup>*\<^sup>* (sq_init, demo_linked, []) (s, demo_linked, out)"
    using reachable_run [OF s(1)] demo_linked_ok m unfolding mgr_ready_def by blast
  with send_queue_refines_operations [OF this demo_linked_ok m] s(2) show ?thesis
    by blast
qed

end
