(* ===== verification/Link_Threads.thy ===== *)
theory Link_Threads
  imports Data_Plane Candidates Peer_Status
begin

text \<open>
  The link-setup thread and the packet-handling thread of \<open>src/tincanconnectionmanager.cc\<close>, step by
  step. The first creates and destroys links and owns \<open>uid_map_\<close> and \<open>transport_map_\<close>; the second
  owns \<open>short_uid_map_\<close>, in which it finds transports that the first may destroy meanwhile. No lock
  guards them: \<open>CreateTransport\<close> and \<open>DestroyTransport\<close> change \<open>short_uid_map_\<close> by \<open>Invoke\<close>, a call that
  the packet-handling thread runs between two packets while the caller waits. The theory shows that
  this is enough, and that the threads together do what the operations of \<open>Link_Manager\<close> and
  \<open>Data_Plane\<close> do one at a time.
\<close>

section \<open>The threads\<close>

text \<open>
  Where the link-setup thread is: between two operations; in \<open>CreateTransport\<close> with the transport
  running, and waiting for \<open>InsertTransportMap_w\<close>; in \<open>DestroyTransport\<close> waiting for
  \<open>DeleteTransportMap_w\<close>, back from it, and about to give up the last reference to the peer;
  waiting for \<open>GetChannelStats_w\<close>.
\<close>

datatype link_pc = LpIdle | LpBuilt string peer_state | LpInsert string tref
  | LpErase string | LpErased string | LpUnlinked tref | LpStats string

fun lp_waits :: "link_pc \<Rightarrow> bool" where
  "lp_waits (LpInsert uid t) = True"
| "lp_waits (LpErase uid) = True"
| "lp_waits (LpStats uid) = True"
| "lp_waits _ = False"

text \<open>
  Where the packet-handling thread is: between two messages; in \<open>HandlePacket\<close> before each of the
  two further accesses \<open>short_uid_map_[dest]\<close>, for \<open>writable()\<close> and for \<open>GetChannel\<close>, and before
  \<open>SendPacket\<close> on a channel of a transport; in \<open>OnReadPacket\<close> before \<open>short_uid_map_[source]\<close>.
\<close>

datatype packet_pc = PpIdle | PpFound string "byte list" | PpWritable string "byte list"
  | PpSend tref cref "byte list" | PpRead string cref "byte list"

record threads =
  th_mgr :: mgr
  th_link :: link_pc
  th_packet :: packet_pc
  th_sent :: "io_event list"
  th_recv :: "byte list wqueue"

definition th_start :: "mgr \<Rightarrow> threads" where
  "th_start m = \<lparr>th_mgr = m, th_link = LpIdle, th_packet = PpIdle, th_sent = [], th_recv = wq_new\<rparr>"

section \<open>Steps of the packet-handling thread\<close>

definition th_emit :: "io_event list result \<Rightarrow> threads \<Rightarrow> threads result" where
  "th_emit r s = sbind r (\<lambda>es. Inr (s\<lparr>th_packet := PpIdle, th_sent := th_sent s @ es\<rparr>))"

text \<open>\<open>HandlePacket\<close> up to the choice of the branch, and \<open>OnReadPacket\<close> up to its first test.\<close>

definition packet_start :: "jingle \<Rightarrow> (nat \<Rightarrow> byte) \<Rightarrow> byte list \<Rightarrow> threads \<Rightarrow> threads result" where
  "packet_start jg junk data s =
     (if length data < kHeaderSize then Inr s
      else
        (let dest = dest_id jg data; m = th_mgr s in
         sbind (str_compare_sub dest 0 3 kNullPeerId) (\<lambda>c.
           if c = 0 \<or> short_uid_map m dest = None then th_emit (forward junk (forward_type data) data m) s
           else Inr (s\<lparr>th_packet := PpFound dest data\<rparr>))))"

definition read_start :: "jingle \<Rightarrow> cref \<Rightarrow> byte list \<Rightarrow> threads \<Rightarrow> threads result" where
  "read_start jg channel data s =
     (if length data < kHeaderSize \<or> short_uid_map (th_mgr s) (source_id jg data) = None then Inr s
      else Inr (s\<lparr>th_packet := PpRead (source_id jg data) channel data\<rparr>))"

text \<open>\<open>short_uid_map_[key]->...\<close>: a call on the transport the table has at this moment.\<close>

definition via_short :: "string \<Rightarrow> threads \<Rightarrow> (tref \<Rightarrow> threads result) \<Rightarrow> threads result" where
  "via_short key s f =
     (case short_uid_map (th_mgr s) key of
        None \<Rightarrow> Inl NullDeref
      | Some t \<Rightarrow> if t \<notin> live (th_mgr s) then Inl UseAfterFree else f t)"

fun packet_step :: "tstate \<Rightarrow> (nat \<Rightarrow> byte) \<Rightarrow> packet_pc \<Rightarrow> threads \<Rightarrow> threads result" where
  "packet_step ts junk PpIdle s = Inr s"
| "packet_step ts junk (PpFound dest data) s =
     via_short dest s (\<lambda>t.
       if tp_writable ts t then Inr (s\<lparr>th_packet := PpWritable dest data\<rparr>)
       else th_emit (forward junk (Some kTincanPacket) data (th_mgr s)) s)"
| "packet_step ts junk (PpWritable dest data) s =
     via_short dest s (\<lambda>t.
       case tp_channel ts t of
         Some channel \<Rightarrow> Inr (s\<lparr>th_packet := PpSend t channel data\<rparr>)
       | None \<Rightarrow> th_emit (forward junk (Some kTincanPacket) data (th_mgr s)) s)"
| "packet_step ts junk (PpSend t channel data) s =
     (if t \<notin> live (th_mgr s) then Inl UseAfterFree else th_emit (Inr [ChannelSend channel data]) s)"
| "packet_step ts junk (PpRead source channel data) s =
     via_short source s (\<lambda>t.
       if tp_channel ts t = Some channel
       then Inr (s\<lparr>th_packet := PpIdle, th_recv := wq_add data (th_recv s)\<rparr>)
       else Inr (s\<lparr>th_packet := PpIdle\<rparr>))"

text \<open>What the packet-handling thread runs for a waiting caller; the caller then goes on.\<close>

fun invoked :: "tstate \<Rightarrow> (cref \<Rightarrow> conn_info list) \<Rightarrow> link_pc \<Rightarrow> threads \<Rightarrow> threads result" where
  "invoked ts stats (LpInsert uid t) s =
     Inr (s\<lparr>th_mgr := InsertTransportMap_w (sub_uid uid) t (th_mgr s), th_link := LpIdle\<rparr>)"
| "invoked ts stats (LpErase uid) s =
     Inr (s\<lparr>th_mgr := DeleteTransportMap_w (sub_uid uid) (th_mgr s), th_link := LpErased uid\<rparr>)"
| "invoked ts stats (LpStats uid) s =
     sbind (GetChannelStats_w ts stats uid (th_mgr s)) (\<lambda>_. Inr (s\<lparr>th_link := LpIdle\<rparr>))"
| "invoked ts stats _ s = Inr s"

section \<open>Steps of the link-setup thread\<close>

text \<open>
  \<open>CreateTransport\<close> publishes the peer and waits; \<open>DestroyTransport\<close>, back from the call, takes the
  peer out of its tables, and on return the transport is destroyed.
\<close>

fun link_step :: "link_pc \<Rightarrow> threads \<Rightarrow> threads result" where
  "link_step (LpBuilt uid ps) s =
     Inr (s\<lparr>th_mgr := create_publish uid ps (th_mgr s), th_link := LpInsert uid (ps_transport ps)\<rparr>)"
| "link_step (LpErased uid) s =
     (case uid_map (th_mgr s) uid of
        None \<Rightarrow> Inl NullDeref
      | Some peer \<Rightarrow> Inr (s\<lparr>th_mgr := destroy_unlink uid peer (th_mgr s),
                          th_link := LpUnlinked (ps_transport peer)\<rparr>))"
| "link_step (LpUnlinked t) s =
     Inr (s\<lparr>th_mgr := fst (destroy_free t (th_mgr s)), th_link := LpIdle\<rparr>)"
| "link_step _ s = Inr s"

text \<open>The other operations of the link-setup thread on the manager, which do not wait.\<close>

inductive link_op :: "jingle \<Rightarrow> mgr \<Rightarrow> mgr \<Rightarrow> bool" for jg where
  lo_Setup: "Setup jg debug tap uid ip4 k4 ip6 k6 sm sw m = Inr (m', es) \<Longrightarrow> link_op jg m m'"
| lo_AddIPMapping: "AddIPMapping jg uid ip4 ip6 m = (b, m', es) \<Longrightarrow> link_op jg m m'"
| lo_OnCandidatesReady: "t \<in> live m \<Longrightarrow> OnCandidatesReady jg kTapName t cs m = Inr m' \<Longrightarrow> link_op jg m m'"
| lo_CreateConnections: "CreateConnections jg uid cas m = Inr (b, m', es) \<Longrightarrow> link_op jg m m'"
| lo_forward_addr: "link_op jg m (set_forward_addr a m)"
| lo_trim: "link_op jg m (set_trim_connection b m)"

text \<open>
  The link-setup thread begins an operation. A new transport is at an address no live one has.
\<close>

inductive link_begin :: "jingle \<Rightarrow> threads \<Rightarrow> threads \<Rightarrow> bool" for jg where
  lb_create: "th_link s = LpIdle \<Longrightarrow> t \<notin> live (th_mgr s) \<Longrightarrow>
    create_build jg now t ch uid a (th_mgr s) = Some (ps, m, es) \<Longrightarrow>
    link_begin jg s (s\<lparr>th_mgr := m, th_link := LpBuilt uid ps\<rparr>)"
| lb_destroy: "th_link s = LpIdle \<Longrightarrow> uid_map (th_mgr s) uid \<noteq> None \<Longrightarrow>
    link_begin jg s (s\<lparr>th_link := LpErase uid\<rparr>)"
| lb_stats: "th_link s = LpIdle \<Longrightarrow> uid_map (th_mgr s) uid \<noteq> None \<Longrightarrow>
    link_begin jg s (s\<lparr>th_link := LpStats uid\<rparr>)"
| lb_op: "th_link s = LpIdle \<Longrightarrow> link_op jg (th_mgr s) m \<Longrightarrow> link_begin jg s (s\<lparr>th_mgr := m\<rparr>)"

text \<open>
  A step of either thread, or its fault. A live transport has the channel it was made with
  (\<open>GetChannelStats_w\<close> relies on it).
\<close>

inductive th_step :: "jingle \<Rightarrow> threads \<Rightarrow> threads result \<Rightarrow> bool" for jg where
  ts_begin: "link_begin jg s s' \<Longrightarrow> th_step jg s (Inr s')"
| ts_link: "th_step jg s (link_step (th_link s) s)"
| ts_invoked: "th_packet s = PpIdle \<Longrightarrow> \<forall>t \<in> live (th_mgr s). tp_channel ts t \<noteq> None \<Longrightarrow>
    th_step jg s (invoked ts stats (th_link s) s)"
| ts_packet: "th_packet s = PpIdle \<Longrightarrow> th_step jg s (packet_start jg junk data s)"
| ts_read: "th_packet s = PpIdle \<Longrightarrow> th_step jg s (read_start jg channel data s)"
| ts_packet_step: "th_step jg s (packet_step ts junk (th_packet s) s)"

definition th_runs :: "jingle \<Rightarrow> threads \<Rightarrow> threads \<Rightarrow> bool" where
  "th_runs jg = (\<lambda>s s'. th_step jg s (Inr s'))\<^sup>*\<^sup>*"

lemma th_runs_refl [simp]: "th_runs jg s s"
  by (simp add: th_runs_def)

lemma th_runs_step: "th_runs jg s s1 \<Longrightarrow> th_step jg s1 (Inr s2) \<Longrightarrow> th_runs jg s s2"
  unfolding th_runs_def by (rule rtranclp.rtrancl_into_rtrancl)

section \<open>The operations one at a time\<close>

type_synonym spec_state = "mgr \<times> io_event list \<times> byte list wqueue"

inductive op_step :: "jingle \<Rightarrow> spec_state \<Rightarrow> spec_state \<Rightarrow> bool" for jg where
  os_create: "t \<notin> live m \<Longrightarrow> CreateTransport jg now t ch uid a m = (True, m', es) \<Longrightarrow>
    op_step jg (m, out, q) (m', out, q)"
| os_destroy: "DestroyTransport uid m = (True, m', es) \<Longrightarrow> op_step jg (m, out, q) (m', out, q)"
| os_op: "link_op jg m m' \<Longrightarrow> op_step jg (m, out, q) (m', out, q)"
| os_packet: "HandlePacket jg ts junk data m = Inr es \<Longrightarrow> op_step jg (m, out, q) (m, out @ es, q)"
| os_read: "OnReadPacket jg ts channel data p = Inr p' \<Longrightarrow>
    op_step jg (pl_mgr p, out, g_recv_queue p) (pl_mgr p', out, g_recv_queue p')"

section \<open>The threads simulate the operations\<close>

text \<open>
  The state of the manager \<open>m\<close> in the middle of an operation of the link-setup thread, and the one
  \<open>m0\<close> the operations one at a time have reached: an operation that waits takes effect when the
  packet-handling thread runs its part.
\<close>

fun link_rel :: "jingle \<Rightarrow> link_pc \<Rightarrow> mgr \<Rightarrow> mgr \<Rightarrow> bool" where
  "link_rel jg LpIdle m m0 \<longleftrightarrow> m = m0"
| "link_rel jg (LpBuilt uid ps) m m0 \<longleftrightarrow> (\<exists>now t ch a es. t \<notin> live m0 \<and>
     create_build jg now t ch uid a m0 = Some (ps, m, es))"
| "link_rel jg (LpInsert uid t) m m0 \<longleftrightarrow> (\<exists>now ch a es ps m1. t \<notin> live m0 \<and>
     create_build jg now t ch uid a m0 = Some (ps, m1, es) \<and> m = create_publish uid ps m1)"
| "link_rel jg (LpErase uid) m m0 \<longleftrightarrow> m = m0 \<and> uid_map m uid \<noteq> None"
| "link_rel jg (LpErased uid) m m0 \<longleftrightarrow> (\<exists>m1 peer. uid_map m1 uid = Some peer \<and>
     m = DeleteTransportMap_w (sub_uid uid) m1 \<and> (\<exists>es. DestroyTransport uid m1 = (True, m0, es)))"
| "link_rel jg (LpUnlinked t) m m0 \<longleftrightarrow> m0 = fst (destroy_free t m)"
| "link_rel jg (LpStats uid) m m0 \<longleftrightarrow> m = m0 \<and> uid_map m uid \<noteq> None"

fun packet_rel :: "jingle \<Rightarrow> packet_pc \<Rightarrow> (string \<rightharpoonup> tref) \<Rightarrow> bool" where
  "packet_rel jg PpIdle S \<longleftrightarrow> True"
| "packet_rel jg (PpFound dest data) S \<longleftrightarrow>
     kHeaderSize \<le> length data \<and> dest = dest_id jg data \<and> S dest \<noteq> None"
| "packet_rel jg (PpWritable dest data) S \<longleftrightarrow>
     kHeaderSize \<le> length data \<and> dest = dest_id jg data \<and> S dest \<noteq> None"
| "packet_rel jg (PpSend t channel data) S \<longleftrightarrow>
     kHeaderSize \<le> length data \<and> S (dest_id jg data) = Some t"
| "packet_rel jg (PpRead source channel data) S \<longleftrightarrow>
     kHeaderSize \<le> length data \<and> source = source_id jg data \<and> S source \<noteq> None"

definition mgr_ok :: "mgr \<Rightarrow> bool" where
  "mgr_ok m \<longleftrightarrow> links_ok m \<and> forward_socket m \<noteq> None"

fun th_rel :: "jingle \<Rightarrow> threads \<Rightarrow> spec_state \<Rightarrow> bool" where
  "th_rel jg s (m0, out, q) \<longleftrightarrow> link_rel jg (th_link s) (th_mgr s) m0 \<and> mgr_ok m0 \<and>
     packet_rel jg (th_packet s) (short_uid_map m0) \<and> out = th_sent s \<and> q = th_recv s"

lemma create_build_eq:
  "create_build jg now t ch uid a m = Some (ps, m', es) \<Longrightarrow>
     uid_map m uid = None \<and> ps_transport ps = t \<and> m' = m\<lparr>live := insert t (live m)\<rparr>"
  by (auto simp: create_build_def Let_def case_prod_beta split: if_splits)

text \<open>
  What the packet-handling thread sees of the manager: its table and the place it forwards to are
  those of the operations, and no transport is missing.
\<close>

definition same_view :: "mgr \<Rightarrow> mgr \<Rightarrow> bool" where
  "same_view m m0 \<longleftrightarrow> short_uid_map m = short_uid_map m0 \<and> live m0 \<subseteq> live m \<and>
     forward_socket m = forward_socket m0 \<and> forward_addr m = forward_addr m0"

lemma link_rel_view: "link_rel jg pc m m0 \<Longrightarrow> same_view m m0"
  by (cases pc)
    (auto simp: same_view_def create_publish_def delete_short DestroyTransport_def destroy_unlink_def
      destroy_free_def dest!: create_build_eq)

lemma link_op_view:
  assumes "link_op jg m m'" and "mgr_ok m"
  shows "mgr_ok m' \<and> short_uid_map m' = short_uid_map m"
  using assms
proof (induction rule: link_op.induct)
  case (lo_Setup debug tap uid ip4 k4 ip6 k6 sm sw m m' es)
  then show ?case
    using links_ok_Setup [OF lo_Setup.hyps]
    by (auto simp: mgr_ok_def Setup_def Let_def split: if_splits option.splits)
next
  case (lo_AddIPMapping uid ip4 ip6 m b m' es)
  then show ?case
    using links_ok_AddIPMapping [OF lo_AddIPMapping.hyps]
    by (auto simp: mgr_ok_def AddIPMapping_def split: if_splits)
next
  case (lo_OnCandidatesReady t m kTapName cs m')
  have ok: "links_ok m" using lo_OnCandidatesReady.prems by (simp add: mgr_ok_def)
  obtain uid ps where "transport_map m t = Some uid" "uid_map m uid = Some ps"
    using links_ok_registered [OF ok lo_OnCandidatesReady.hyps(1)] by blast
  then show ?case
    using lo_OnCandidatesReady links_ok_OnCandidatesReady [OF ok lo_OnCandidatesReady.hyps]
    by (auto simp: mgr_ok_def OnCandidatesReady_registered)
next
  case (lo_CreateConnections uid cas m b m' es)
  have ok: "links_ok m" using lo_CreateConnections.prems by (simp add: mgr_ok_def)
  from links_ok_CreateConnections [OF ok lo_CreateConnections.hyps] lo_CreateConnections show ?case
    by (auto simp: mgr_ok_def elim: CreateConnections_cases)
next
  case (lo_forward_addr m a)
  then show ?case by (simp add: mgr_ok_def set_forward_addr_def)
next
  case (lo_trim m b)
  then show ?case by (simp add: mgr_ok_def set_trim_connection_def)
qed

text \<open>The link-setup thread on its own takes no step that the packet-handling thread can see.\<close>

lemma link_step_simulates:
  assumes "link_rel jg pc m m0" and "th_mgr s = m" and "th_link s = pc"
  shows "\<exists>s'. link_step pc s = Inr s' \<and> link_rel jg (th_link s') (th_mgr s') m0 \<and>
    th_packet s' = th_packet s \<and> th_sent s' = th_sent s \<and> th_recv s' = th_recv s"
proof (cases pc)
  case (LpBuilt uid ps)
  then obtain now t ch a es where "t \<notin> live m0"
    and b: "create_build jg now t ch uid a m0 = Some (ps, m, es)"
    using assms(1) by auto
  moreover have "t = ps_transport ps"
    using create_build_eq [OF b] by simp
  ultimately have "link_rel jg (LpInsert uid (ps_transport ps)) (create_publish uid ps m) m0"
    by (simp only: link_rel.simps) blast
  then show ?thesis
    using LpBuilt assms(2) by simp
next
  case (LpErased uid)
  then show ?thesis
    using assms by (auto simp: DestroyTransport_def delete_short)
qed (use assms in auto)

lemma create_insert:
  assumes "create_build jg now t ch uid a m0 = Some (ps, m1, es)"
  shows "CreateTransport jg now t ch uid a m0 =
    (True, InsertTransportMap_w (sub_uid uid) t (create_publish uid ps m1), es)"
  using assms create_build_eq [OF assms] by (simp add: CreateTransport_def)

lemma mgr_ok_CreateTransport:
  "CreateTransport jg now t ch uid a m = (b, m', es) \<Longrightarrow> t \<notin> live m \<Longrightarrow> mgr_ok m \<Longrightarrow> mgr_ok m'"
  using links_ok_CreateTransport by (fastforce simp: mgr_ok_def elim: CreateTransport_cases)

lemma mgr_ok_DestroyTransport: "DestroyTransport uid m = (b, m', es) \<Longrightarrow> mgr_ok m \<Longrightarrow> mgr_ok m'"
  using links_ok_DestroyTransport
  by (cases "uid_map m uid") (fastforce simp: mgr_ok_def DestroyTransport_absent DestroyTransport_present)+

lemma mgr_ok_short: "mgr_ok m \<Longrightarrow> short_uid_map m sub = Some t \<Longrightarrow> t \<in> live m"
  using links_ok_short by (auto simp: mgr_ok_def)

lemma stats_returned:
  assumes "mgr_ok m" and "uid_map m uid \<noteq> None" and "\<forall>t \<in> live m. tp_channel ts t \<noteq> None"
  shows "\<exists>r. GetChannelStats_w ts stats uid m = Inr r"
  using assms tables_okD(2) [of "uid_map m" "short_uid_map m" "transport_map m" "live m" uid]
  by (fastforce simp: mgr_ok_def links_ok_def GetChannelStats_w_def)

lemma invoked_simulates:
  assumes rel: "link_rel jg pc m m0" and ok: "mgr_ok m0" and s: "th_mgr s = m" "th_link s = pc"
    and ch: "\<forall>t \<in> live m. tp_channel ts t \<noteq> None"
  shows "\<exists>s' m0'. invoked ts stats pc s = Inr s' \<and> (m0' = m0 \<or> (\<forall>out q. op_step jg (m0, out, q) (m0', out, q))) \<and>
    link_rel jg (th_link s') (th_mgr s') m0' \<and> mgr_ok m0' \<and> \<not> lp_waits (th_link s') \<and>
    th_packet s' = th_packet s \<and> th_sent s' = th_sent s \<and> th_recv s' = th_recv s"
proof (cases pc)
  case (LpInsert uid t)
  then obtain now c a es ps m1 where t: "t \<notin> live m0" and m: "m = create_publish uid ps m1"
    and b: "create_build jg now t c uid a m0 = Some (ps, m1, es)"
    using rel by auto
  let ?m0' = "InsertTransportMap_w (sub_uid uid) t m"
  have c: "CreateTransport jg now t c uid a m0 = (True, ?m0', es)"
    using create_insert [OF b] m by simp
  have "op_step jg (m0, out, q) (?m0', out, q)" for out q
    using t c by (rule os_create)
  moreover have "mgr_ok ?m0'"
    using c t ok by (rule mgr_ok_CreateTransport)
  ultimately show ?thesis
    using LpInsert s by (intro exI [of _ "s\<lparr>th_mgr := ?m0', th_link := LpIdle\<rparr>"] exI [of _ ?m0']) simp
next
  case (LpErase uid)
  then obtain peer where m: "m = m0" and u: "uid_map m uid = Some peer"
    using rel by auto
  obtain m0' es where d: "DestroyTransport uid m = (True, m0', es)"
    using DestroyTransport_present [OF u] by blast
  then have "op_step jg (m0, out, q) (m0', out, q)" for out q
    using m by (auto intro: os_destroy)
  moreover have "mgr_ok m0'"
    using d ok m by (auto intro: mgr_ok_DestroyTransport)
  ultimately show ?thesis
    using LpErase s u d
    by (intro exI [of _ "s\<lparr>th_mgr := DeleteTransportMap_w (sub_uid uid) m, th_link := LpErased uid\<rparr>"] exI [of _ m0'])
      auto
next
  case (LpStats uid)
  then show ?thesis
    using rel ok ch s stats_returned [of m uid ts stats] by auto
qed (use rel ok s in \<open>intro exI [of _ s] exI [of _ m0], simp\<close>)+

text \<open>
  A packet on its way: each access of the table finds the transport alive, and the packet leaves as
  \<open>HandlePacket\<close> sends it when the transports answer what they answered on the way.
\<close>

fun carried :: "packet_pc \<Rightarrow> byte list list" where
  "carried (PpFound dest data) = [data]"
| "carried (PpWritable dest data) = [data]"
| "carried (PpSend t channel data) = [data]"
| "carried _ = []"

definition packet_sends :: "jingle \<Rightarrow> mgr \<Rightarrow> byte list \<Rightarrow> threads \<Rightarrow> threads \<Rightarrow> bool" where
  "packet_sends jg m0 data s s' \<longleftrightarrow> (\<exists>ts junk es. HandlePacket jg ts junk data m0 = Inr es \<and>
     th_sent s' = th_sent s @ es \<and> th_recv s' = th_recv s)"

definition packet_reads :: "jingle \<Rightarrow> mgr \<Rightarrow> threads \<Rightarrow> threads \<Rightarrow> bool" where
  "packet_reads jg m0 s s' \<longleftrightarrow> th_sent s' = th_sent s \<and> (\<exists>ts channel data. \<forall>p.
     pl_mgr p = m0 \<longrightarrow> g_recv_queue p = th_recv s \<longrightarrow>
     OnReadPacket jg ts channel data p = Inr (p\<lparr>g_recv_queue := th_recv s'\<rparr>))"

text \<open>From the packets \<open>l\<close> in the hands of the thread (one or none) to those it has after the step.\<close>

definition packet_out :: "jingle \<Rightarrow> mgr \<Rightarrow> byte list list \<Rightarrow> threads \<Rightarrow> threads result \<Rightarrow> bool" where
  "packet_out jg m0 l s r \<longleftrightarrow> (\<exists>s'. r = Inr s' \<and> th_mgr s' = th_mgr s \<and> th_link s' = th_link s \<and>
     packet_rel jg (th_packet s') (short_uid_map m0) \<and>
     (th_sent s' = th_sent s \<and> th_recv s' = th_recv s \<and> carried (th_packet s') = l \<or>
      carried (th_packet s') = [] \<and> (\<exists>data. l = [data] \<and> packet_sends jg m0 data s s') \<or>
      carried (th_packet s') = [] \<and> l = [] \<and> packet_reads jg m0 s s'))"

lemma packet_out_stay:
  "packet_rel jg (th_packet s) (short_uid_map m0) \<Longrightarrow> packet_out jg m0 (carried (th_packet s)) s (Inr s)"
  "packet_rel jg pc (short_uid_map m0) \<Longrightarrow> packet_out jg m0 (carried pc) s (Inr (s\<lparr>th_packet := pc\<rparr>))"
  by (auto simp: packet_out_def)

lemma packet_out_emit:
  assumes "HandlePacket jg ts junk data m0 = r" and "r = Inr es"
  shows "packet_out jg m0 [data] s (th_emit r s)"
  using assms by (auto simp: packet_out_def packet_sends_def th_emit_def)

lemma forward_view: "same_view m m0 \<Longrightarrow> forward junk ty data m = forward junk ty data m0"
  by (auto simp: same_view_def forward_def split: option.split)

lemma forward_ok: "mgr_ok m \<Longrightarrow> \<exists>es. forward junk ty data m = Inr es"
  by (auto simp: mgr_ok_def)

lemma packet_out_forward:
  "mgr_ok m0 \<Longrightarrow> HandlePacket jg ts junk data m0 = forward junk ty data m0 \<Longrightarrow>
     packet_out jg m0 [data] s (th_emit (forward junk ty data m0) s)"
  using forward_ok packet_out_emit by metis

lemma via_short_live:
  "mgr_ok m0 \<Longrightarrow> same_view (th_mgr s) m0 \<Longrightarrow> short_uid_map m0 key = Some t \<Longrightarrow> via_short key s f = f t"
  using mgr_ok_short by (auto simp: same_view_def via_short_def)

lemma packet_start_eq:
  assumes "kHeaderSize \<le> length data"
  shows "packet_start jg junk data s =
    (if short_uid_map (th_mgr s) (dest_id jg data) = None
     then th_emit (forward junk (forward_type data) data (th_mgr s)) s
     else Inr (s\<lparr>th_packet := PpFound (dest_id jg data) data\<rparr>))"
proof -
  obtain c where c: "str_compare_sub (dest_id jg data) 0 3 kNullPeerId = Inr c"
    by (simp add: str_compare_sub_0)
  then have "c \<noteq> 0"
    using null_test_dead [of "dest_id jg data"] by auto
  with assms c show ?thesis
    by (simp add: packet_start_def Let_def)
qed

lemma packet_start_simulates:
  assumes "mgr_ok m0" and v: "same_view (th_mgr s) m0" and "th_packet s = PpIdle"
  shows "packet_out jg m0 [data] s (packet_start jg junk data s)"
proof (cases "kHeaderSize \<le> length data")
  case True
  have S: "short_uid_map (th_mgr s) = short_uid_map m0"
    using v by (simp add: same_view_def)
  show ?thesis
  proof (cases "short_uid_map m0 (dest_id jg data)")
    case None
    then have "HandlePacket jg undefined junk data m0 = forward junk (forward_type data) data m0"
      by (simp add: HandlePacket_eq [OF True])
    with None S assms(1) forward_view [OF v] show ?thesis
      by (auto simp: packet_start_eq [OF True] intro: packet_out_forward)
  next
    case (Some t)
    with S True packet_out_stay(2) [of jg "PpFound (dest_id jg data) data" m0 s] show ?thesis
      by (simp add: packet_start_eq [OF True])
  qed
next
  case False
  then have "packet_sends jg m0 data s s"
    by (simp add: packet_sends_def HandlePacket_def)
  with False show ?thesis
    using assms(3) by (auto simp: packet_start_def packet_out_def)
qed

lemma packet_step_simulates:
  assumes ok: "mgr_ok m0" and v: "same_view (th_mgr s) m0"
    and rel: "packet_rel jg pc (short_uid_map m0)" and pc: "th_packet s = pc"
  shows "packet_out jg m0 (carried pc) s (packet_step ts junk pc s)"
proof (cases pc)
  case PpIdle
  then show ?thesis using pc packet_out_stay(1) [of jg s m0] by simp
next
  case (PpFound dest data)
  then obtain t where len: "kHeaderSize \<le> length data" and d: "dest = dest_id jg data"
    and t: "short_uid_map m0 dest = Some t"
    using rel by auto
  have "HandlePacket jg ts junk data m0 = forward junk (Some kTincanPacket) data m0" if "\<not> tp_writable ts t"
    using that t d mgr_ok_short [OF ok t] by (simp add: HandlePacket_eq [OF len])
  then show ?thesis
    using PpFound t d len ok forward_view [OF v] packet_out_stay(2) [of jg "PpWritable dest data" m0 s]
    by (auto simp: via_short_live [OF ok v t [unfolded d]] intro: packet_out_forward)
next
  case (PpWritable dest data)
  then obtain t where len: "kHeaderSize \<le> length data" and d: "dest = dest_id jg data"
    and t: "short_uid_map m0 dest = Some t"
    using rel by auto
  have "HandlePacket jg ts junk data m0 = forward junk (Some kTincanPacket) data m0" if "tp_channel ts t = None"
    using that t d mgr_ok_short [OF ok t] by (simp add: HandlePacket_eq [OF len])
  then show ?thesis
    using PpWritable t d len ok forward_view [OF v] packet_out_stay(2) [of jg "PpSend t _ data" m0 s]
    by (auto simp: via_short_live [OF ok v t [unfolded d]] intro: packet_out_forward split: option.split)
next
  case (PpSend t channel data)
  let ?ts = "ts\<lparr>tp_writable := (\<lambda>_. True), tp_channel := (\<lambda>_. Some channel)\<rparr>"
  have len: "kHeaderSize \<le> length data" and t: "short_uid_map m0 (dest_id jg data) = Some t"
    using rel PpSend by auto
  have "HandlePacket jg ?ts junk data m0 = Inr [ChannelSend channel data]"
    using t mgr_ok_short [OF ok t] by (simp add: HandlePacket_eq [OF len])
  moreover have "t \<in> live (th_mgr s)"
    using v mgr_ok_short [OF ok t] by (auto simp: same_view_def)
  ultimately show ?thesis
    using PpSend by (auto intro: packet_out_emit)
next
  case (PpRead source channel data)
  then obtain t where len: "kHeaderSize \<le> length data" and d: "source = source_id jg data"
    and t: "short_uid_map m0 source = Some t"
    using rel by auto
  have "packet_reads jg m0 s (s\<lparr>th_packet := PpIdle, th_recv := wq_add data (th_recv s)\<rparr>)"
    if "tp_channel ts t = Some channel"
    unfolding packet_reads_def using that t d len mgr_ok_short [OF ok t]
    by (auto simp: OnReadPacket_def intro!: exI [of _ ts] exI [of _ channel] exI [of _ data])
  then show ?thesis
    using PpRead t by (auto simp: via_short_live [OF ok v t] packet_out_def)
qed

text \<open>What leaves or arrives does so by a whole operation.\<close>

lemma packet_out_op:
  assumes "packet_sends jg m0 data s s' \<or> packet_reads jg m0 s s'"
  shows "op_step jg (m0, th_sent s, th_recv s) (m0, th_sent s', th_recv s')"
  using assms
proof
  assume "packet_sends jg m0 data s s'"
  then show ?thesis by (auto simp: packet_sends_def intro: os_packet)
next
  assume "packet_reads jg m0 s s'"
  then obtain ts channel data where "th_sent s' = th_sent s"
    and r: "\<And>p. pl_mgr p = m0 \<Longrightarrow> g_recv_queue p = th_recv s \<Longrightarrow>
      OnReadPacket jg ts channel data p = Inr (p\<lparr>g_recv_queue := th_recv s'\<rparr>)"
    by (auto simp: packet_reads_def)
  with os_read [OF r [of "plane_new m0 True\<lparr>g_recv_queue := th_recv s\<rparr>"], of "th_sent s"] show ?thesis
    by (simp add: plane_new_def)
qed

definition threads_ok :: "jingle \<Rightarrow> threads \<Rightarrow> mgr \<Rightarrow> bool" where
  "threads_ok jg s m0 \<longleftrightarrow> link_rel jg (th_link s) (th_mgr s) m0 \<and> mgr_ok m0 \<and>
     packet_rel jg (th_packet s) (short_uid_map m0)"

lemma th_rel_iff: "th_rel jg s (m0, out, q) \<longleftrightarrow> threads_ok jg s m0 \<and> out = th_sent s \<and> q = th_recv s"
  by (auto simp: threads_ok_def)

lemma packet_out_rel:
  assumes "packet_out jg m0 l s r" and "threads_ok jg s m0"
  shows "\<exists>s' a. r = Inr s' \<and> (a = (m0, th_sent s, th_recv s) \<or> op_step jg (m0, th_sent s, th_recv s) a) \<and>
    th_rel jg s' a"
proof -
  obtain s' where s': "r = Inr s'" "threads_ok jg s' m0" and out: "th_sent s' = th_sent s \<and> th_recv s' = th_recv s \<or>
      (\<exists>data. packet_sends jg m0 data s s' \<or> packet_reads jg m0 s s')"
    using assms unfolding packet_out_def threads_ok_def by (elim exE conjE disjE) auto
  then have "(m0, th_sent s', th_recv s') = (m0, th_sent s, th_recv s) \<or>
      op_step jg (m0, th_sent s, th_recv s) (m0, th_sent s', th_recv s')"
    using packet_out_op by blast
  with s' show ?thesis
    by (intro exI [of _ s'] exI [of _ "(m0, th_sent s', th_recv s')"]) (simp only: th_rel_iff simp_thms)
qed

lemma link_begin_simulates:
  assumes "link_begin jg s s'" and ok: "threads_ok jg s m0"
  shows "\<exists>m0'. (m0' = m0 \<or> link_op jg m0 m0') \<and> threads_ok jg s' m0' \<and>
    th_packet s' = th_packet s \<and> th_sent s' = th_sent s \<and> th_recv s' = th_recv s"
  using assms(1)
proof (cases rule: link_begin.cases)
  case (lb_create t now ch uid a ps m es)
  then have "link_rel jg (LpBuilt uid ps) m m0"
    using ok unfolding threads_ok_def by (simp only: link_rel.simps) blast
  then show ?thesis
    using lb_create(1) ok by (intro exI [of _ m0]) (simp add: threads_ok_def)
next
  case (lb_op m)
  then have "link_op jg m0 m"
    using ok by (simp add: threads_ok_def)
  with link_op_view [OF this] lb_op ok show ?thesis
    by (intro exI [of _ m]) (simp add: threads_ok_def)
qed (use ok in \<open>auto simp: threads_ok_def\<close>)

lemma th_step_simulates:
  assumes "th_step jg s r" and ok: "threads_ok jg s m0"
  shows "\<exists>s' a. r = Inr s' \<and> (a = (m0, th_sent s, th_recv s) \<or> op_step jg (m0, th_sent s, th_recv s) a) \<and>
    th_rel jg s' a"
proof -
  have rel: "link_rel jg (th_link s) (th_mgr s) m0" and m0: "mgr_ok m0"
    and prel: "packet_rel jg (th_packet s) (short_uid_map m0)"
    using ok by (simp_all add: threads_ok_def)
  have view: "same_view (th_mgr s) m0"
    using rel by (rule link_rel_view)
  show ?thesis
    using assms(1)
  proof (cases rule: th_step.cases)
    case (ts_begin s')
    obtain m0' where "m0' = m0 \<or> link_op jg m0 m0'" and ok': "threads_ok jg s' m0'"
      and same: "th_sent s' = th_sent s" "th_recv s' = th_recv s"
      using link_begin_simulates [OF ts_begin(2) ok] by blast
    then have "m0' = m0 \<or> op_step jg (m0, th_sent s, th_recv s) (m0', th_sent s, th_recv s)"
      by (auto intro: os_op)
    moreover have "th_rel jg s' (m0', th_sent s, th_recv s)"
      unfolding th_rel_iff using ok' same by simp
    ultimately show ?thesis
      using ts_begin(1) by blast
  next
    case ts_link
    with link_step_simulates [OF rel refl refl] m0 prel show ?thesis by auto
  next
    case (ts_invoked ts stats)
    with invoked_simulates [OF rel m0 refl refl, of ts stats] prel show ?thesis by fastforce
  next
    case (ts_packet junk data)
    then have "packet_out jg m0 [data] s r"
      using packet_start_simulates [OF m0 view] by simp
    then show ?thesis
      using ok by (rule packet_out_rel)
  next
    case (ts_read channel data)
    then have "packet_out jg m0 [] s r"
      using view by (auto simp: read_start_def same_view_def packet_out_def)
    then show ?thesis
      using ok by (rule packet_out_rel)
  next
    case (ts_packet_step ts junk)
    then have "packet_out jg m0 (carried (th_packet s)) s r"
      using packet_step_simulates [OF m0 view prel refl] by simp
    then show ?thesis
      using ok by (rule packet_out_rel)
  qed
qed

interpretation threads: safe_simulation "th_step jg" "op_step jg" "th_rel jg" for jg
proof unfold_locales
  fix s a r
  assume "th_rel jg s a" and "th_step jg s r"
  moreover obtain m0 out q where "a = (m0, out, q)" by (cases a)
  ultimately show "\<exists>s' a'. r = Inr s' \<and> (a' = a \<or> op_step jg a a') \<and> th_rel jg s' a'"
    using th_step_simulates [of jg s r m0] by (simp only: th_rel_iff)
qed

lemma th_rel_start: "mgr_ok m \<Longrightarrow> th_rel jg (th_start m) (m, [], wq_new)"
  by (simp add: th_start_def)

lemma runs_threads_ok:
  assumes "th_runs jg (th_start m) s" and "mgr_ok m"
  shows "\<exists>m0. (op_step jg)\<^sup>*\<^sup>* (m, [], wq_new) (m0, th_sent s, th_recv s) \<and> threads_ok jg s m0"
proof -
  obtain a where "(op_step jg)\<^sup>*\<^sup>* (m, [], wq_new) a" "th_rel jg s a"
    using threads.runs_related [OF _ th_rel_start [OF assms(2)]] assms(1) unfolding th_runs_def by blast
  then show ?thesis
    by (cases a) (auto simp only: th_rel_iff)
qed

section \<open>The packet-handling thread reaches the end of a packet\<close>

fun packet_left :: "packet_pc \<Rightarrow> nat" where
  "packet_left PpIdle = 0"
| "packet_left (PpFound dest data) = 3"
| "packet_left (PpWritable dest data) = 2"
| "packet_left (PpSend t channel data) = 1"
| "packet_left (PpRead source channel data) = 1"

text \<open>
  The packet-handling thread alone: it goes on with a packet, and between two packets first runs
  what a caller waits for.
\<close>

fun packet_turns :: "tstate \<Rightarrow> (nat \<Rightarrow> byte) \<Rightarrow> (cref \<Rightarrow> conn_info list) \<Rightarrow> nat \<Rightarrow> threads \<Rightarrow> threads result" where
  "packet_turns ts junk stats 0 s = Inr s"
| "packet_turns ts junk stats (Suc n) s =
     sbind (if th_packet s = PpIdle then invoked ts stats (th_link s) s
            else packet_step ts junk (th_packet s) s)
       (packet_turns ts junk stats n)"

lemma packet_step_left:
  "packet_step ts junk pc s = Inr s' \<Longrightarrow> pc \<noteq> PpIdle \<Longrightarrow> packet_left (th_packet s') < packet_left pc"
  by (cases pc)
    (auto simp: via_short_def th_emit_def tincan_simps split: if_splits option.splits)

lemma packet_step_progress:
  assumes "threads_ok jg s m0" and "th_packet s \<noteq> PpIdle"
  shows "\<exists>s'. packet_step ts junk (th_packet s) s = Inr s' \<and> threads_ok jg s' m0 \<and>
    th_link s' = th_link s \<and> th_mgr s' = th_mgr s \<and>
    packet_left (th_packet s') < packet_left (th_packet s)"
proof -
  have "packet_out jg m0 (carried (th_packet s)) s (packet_step ts junk (th_packet s) s)"
    using assms(1) packet_step_simulates link_rel_view unfolding threads_ok_def by blast
  then show ?thesis
    using assms packet_step_left unfolding packet_out_def threads_ok_def by fastforce
qed

lemma packet_turns_return:
  assumes "threads_ok jg s m0" and "lp_waits (th_link s)"
    and "\<forall>t \<in> live (th_mgr s). tp_channel ts t \<noteq> None"
  shows "\<exists>n s'. n \<le> Suc (packet_left (th_packet s)) \<and> packet_turns ts junk stats n s = Inr s' \<and>
    \<not> lp_waits (th_link s')"
  using assms
proof (induction "packet_left (th_packet s)" arbitrary: s rule: less_induct)
  case less
  show ?case
  proof (cases "th_packet s = PpIdle")
    case True
    obtain s' where "invoked ts stats (th_link s) s = Inr s'" "\<not> lp_waits (th_link s')"
      using invoked_simulates [OF _ _ refl refl less.prems(3)] less.prems(1) unfolding threads_ok_def by blast
    then show ?thesis
      using True by (intro exI [of _ 1] exI [of _ s']) simp
  next
    case False
    obtain s1 where s1: "packet_step ts junk (th_packet s) s = Inr s1" "threads_ok jg s1 m0"
      "th_link s1 = th_link s" "th_mgr s1 = th_mgr s" "packet_left (th_packet s1) < packet_left (th_packet s)"
      using packet_step_progress [OF less.prems(1) False] by blast
    obtain n s' where "n \<le> Suc (packet_left (th_packet s1))" "packet_turns ts junk stats n s1 = Inr s'"
      "\<not> lp_waits (th_link s')"
      using less.hyps [OF s1(5,2)] less.prems s1(3,4) by auto
    then show ?thesis
      using False s1 by (intro exI [of _ "Suc n"] exI [of _ s']) simp
  qed
qed

section \<open>A link destroyed while a packet is sent on it\<close>

abbreviation demo_packet :: "byte list" where
  "demo_packet \<equiv> replicate 40 0"

definition demo_race :: "packet_pc \<Rightarrow> io_event list \<Rightarrow> threads" where
  "demo_race pc out = (th_start demo_linked)
     \<lparr>th_packet := pc, th_link := LpErase (demo_uid (CHR ''1'')), th_sent := out\<rparr>"

lemma demo_race_ok: "links_ok demo_linked \<and> forward_socket demo_linked \<noteq> None"
  using demo_linked_ok by (simp add: demo_linked_def)

lemma demo_race_found:
  "th_runs jingle0 (th_start demo_linked) (demo_race (PpFound (replicate 16 (CHR ''0'')) demo_packet) [])"
proof -
  let ?f = "(th_start demo_linked)\<lparr>th_packet := PpFound (replicate 16 (CHR ''0'')) demo_packet\<rparr>"
  have p: "packet_start jingle0 (\<lambda>_. 0) demo_packet (th_start demo_linked) = Inr ?f"
    using demo_zero_packet(1) [of "[]"]
    by (simp add: packet_start_eq kHeaderSize_def th_start_def demo_linked_def)
  have 1: "th_step jingle0 (th_start demo_linked) (Inr ?f)"
    unfolding p [symmetric] by (rule ts_packet) (simp add: th_start_def)
  have 2: "th_step jingle0 ?f (Inr (?f\<lparr>th_link := LpErase (demo_uid (CHR ''1''))\<rparr>))"
    by (rule ts_begin, rule lb_destroy) (simp_all add: th_start_def demo_linked_def)
  have "demo_race (PpFound (replicate 16 (CHR ''0'')) demo_packet) [] =
      ?f\<lparr>th_link := LpErase (demo_uid (CHR ''1''))\<rparr>"
    by (simp add: demo_race_def th_start_def)
  then show ?thesis
    using th_runs_step [OF th_runs_step [OF th_runs_refl 1] 2] by simp
qed

lemma demo_race_sent: "th_runs jingle0 (th_start demo_linked) (demo_race PpIdle [ChannelSend 2 demo_packet])"
proof -
  let ?z = "replicate 16 (CHR ''0'')"
  have m: "short_uid_map demo_linked ?z = Some (TRef 1)" "TRef 1 \<in> live demo_linked"
    by (simp_all add: demo_linked_def)
  have step: "th_step jingle0 (demo_race pc out) (packet_step (demo_ts True) (\<lambda>_. 0) pc (demo_race pc out))" for pc out
    using ts_packet_step [of jingle0 "demo_race pc out" "demo_ts True" "\<lambda>_. 0"] by (simp add: demo_race_def)
  have 1: "th_step jingle0 (demo_race (PpFound ?z demo_packet) []) (Inr (demo_race (PpWritable ?z demo_packet) []))"
    using step [of "PpFound ?z demo_packet" "[]"] m by (simp add: demo_race_def th_start_def via_short_def demo_ts_def)
  have 2: "th_step jingle0 (demo_race (PpWritable ?z demo_packet) []) (Inr (demo_race (PpSend (TRef 1) 2 demo_packet) []))"
    using step [of "PpWritable ?z demo_packet" "[]"] m by (simp add: demo_race_def th_start_def via_short_def demo_ts_def)
  have 3: "th_step jingle0 (demo_race (PpSend (TRef 1) 2 demo_packet) []) (Inr (demo_race PpIdle [ChannelSend 2 demo_packet]))"
    using step [of "PpSend (TRef 1) 2 demo_packet" "[]"] m by (simp add: demo_race_def th_start_def th_emit_def)
  show ?thesis
    by (rule th_runs_step [OF th_runs_step [OF th_runs_step [OF demo_race_found 1] 2] 3])
qed

section \<open>Properties\<close>

text \<open>
  Claim C5. The two threads never race to a destroyed transport: in every interleaving of the
  creation and destruction of links, state reports and packets from both sides, no step of either
  thread calls through a null pointer or a transport that is gone; every transport the packet table leads
  to is alive, and the one about to be destroyed is in it no longer.
\<close>

theorem threads_no_dangling:
  assumes "links_ok m" and "forward_socket m \<noteq> None" and "th_runs jg (th_start m) s"
  shows "(\<forall>f. \<not> th_step jg s (Inl f)) \<and>
    (\<forall>sub t. short_uid_map (th_mgr s) sub = Some t \<longrightarrow> t \<in> live (th_mgr s) \<and> th_link s \<noteq> LpUnlinked t)"
proof -
  have "mgr_ok m"
    using assms(1,2) by (simp add: mgr_ok_def)
  then obtain m0 where ok: "threads_ok jg s m0"
    using runs_threads_ok [OF assms(3)] by blast
  then have rel: "link_rel jg (th_link s) (th_mgr s) m0" and m0: "mgr_ok m0"
    by (simp_all add: threads_ok_def)
  have view: "same_view (th_mgr s) m0"
    using rel by (rule link_rel_view)
  have "t \<in> live (th_mgr s) \<and> th_link s \<noteq> LpUnlinked t" if "short_uid_map (th_mgr s) sub = Some t" for sub t
    using that view rel mgr_ok_short [OF m0, of sub t] by (auto simp: same_view_def destroy_free_def)
  moreover have "\<not> th_step jg s (Inl f)" for f
    using threads.runs_no_fault [OF _ th_rel_start [OF \<open>mgr_ok m\<close>]] assms(3) unfolding th_runs_def by blast
  ultimately show ?thesis by blast
qed

theorem threads_no_dangling_witness:
  "\<not> th_step jingle0 (demo_race (PpFound (replicate 16 (CHR ''0'')) demo_packet) []) (Inl UseAfterFree)"
  using threads_no_dangling [of demo_linked jingle0, OF _ _ demo_race_found] demo_race_ok by blast

text \<open>
  The threads do what the operations do one at a time: whatever the interleaving, the packets
  sent and received are those of a sequence of whole operations (\<open>CreateTransport\<close>,
  \<open>DestroyTransport\<close>, \<open>HandlePacket\<close>, \<open>OnReadPacket\<close> and the others of the link-setup thread), and when
  that thread is between two operations the manager is in the state that sequence leads to.
\<close>

theorem threads_refine_operations:
  assumes "links_ok m" and "forward_socket m \<noteq> None" and "th_runs jg (th_start m) s"
  shows "\<exists>m0. (op_step jg)\<^sup>*\<^sup>* (m, [], wq_new) (m0, th_sent s, th_recv s) \<and>
    (th_link s = LpIdle \<longrightarrow> th_mgr s = m0)"
proof -
  have "mgr_ok m"
    using assms(1,2) by (simp add: mgr_ok_def)
  then obtain m0 where "(op_step jg)\<^sup>*\<^sup>* (m, [], wq_new) (m0, th_sent s, th_recv s)" "threads_ok jg s m0"
    using runs_threads_ok [OF assms(3)] by blast
  then show ?thesis
    by (auto simp: threads_ok_def intro!: exI [of _ m0])
qed

theorem threads_refine_operations_witness:
  "\<exists>m0. (op_step jingle0)\<^sup>*\<^sup>* (demo_linked, [], wq_new) (m0, [ChannelSend 2 demo_packet], wq_new)"
  using threads_refine_operations [of demo_linked jingle0, OF _ _ demo_race_sent] demo_race_ok
  by (auto simp: demo_race_def th_start_def)



end
