(* ===== verification/All_Threads.thy ===== *)
theory All_Threads
  imports Packet_Threads Link_Threads
begin

text \<open>
  All the threads of a node together: those in \<open>DoPacketSend\<close>, inside the send queue (\<open>Send_Queue\<close>); the
  packet-handling thread, which takes signals and packets there, handles each packet access by access of
  \<open>short_uid_map_\<close>, reads packets from the channels and runs the calls of the link-setup thread
  (\<open>Link_Threads\<close>), one message at a time; and the link-setup thread. The theory shows that they do what
  the operations do one at a time, and that they never block each other for good.
\<close>

section \<open>The threads\<close>

record node_threads =
  nt_queue :: "byte list send_queue"
  nt_th :: threads

definition nt_start :: "mgr \<Rightarrow> node_threads" where
  "nt_start m = \<lparr>nt_queue = sq_init, nt_th = th_start m\<rparr>"

abbreviation nt_pc :: "node_threads \<Rightarrow> packet_pc" where
  "nt_pc s \<equiv> th_packet (nt_th s)"

abbreviation nt_link :: "node_threads \<Rightarrow> link_pc" where
  "nt_link s \<equiv> th_link (nt_th s)"

text \<open>The packet-handling thread is between two messages.\<close>

definition packet_free :: "node_threads \<Rightarrow> bool" where
  "packet_free s \<longleftrightarrow> sq_pc (nt_queue s) packet_thread = Idle \<and> nt_pc s = PpIdle"

definition with_th :: "byte list send_queue \<Rightarrow> threads result \<Rightarrow> node_threads result" where
  "with_th q r = sbind r (\<lambda>th. Inr \<lparr>nt_queue = q, nt_th = th\<rparr>)"

lemma with_th_same [simp]: "with_th (nt_queue s) (Inr th) = Inr (s\<lparr>nt_th := th\<rparr>)"
  by (cases s) (simp add: with_th_def)

fun lp_moves :: "link_pc \<Rightarrow> bool" where
  "lp_moves (LpBuilt uid ps) = True"
| "lp_moves (LpErased uid) = True"
| "lp_moves (LpUnlinked t) = True"
| "lp_moves _ = False"

text \<open>
  What is left to do when nothing new begins: inside the queue, where the packet-handling thread enters
  only with no packet in its hands; the packet \<open>remove\<close> returns goes to \<open>HandlePacket\<close>; that packet goes on;
  a call the link-setup thread waits for is run between two messages; and the rest of its operation.
\<close>

inductive settle_step :: "jingle \<Rightarrow> node_threads \<Rightarrow> node_threads result \<Rightarrow> bool" for jg where
  se_queue: "drain_step (nt_queue s) q \<Longrightarrow> sq_handled q = sq_handled (nt_queue s) \<Longrightarrow>
    sq_pc q packet_thread = Idle \<or> nt_pc s = PpIdle \<Longrightarrow> settle_step jg s (Inr (s\<lparr>nt_queue := q\<rparr>))"
| se_handle: "drain_step (nt_queue s) q \<Longrightarrow> sq_handled q = sq_handled (nt_queue s) @ [data] \<Longrightarrow>
    settle_step jg s (with_th q (packet_start jg junk data (nt_th s)))"
| se_packet: "nt_pc s \<noteq> PpIdle \<Longrightarrow>
    settle_step jg s (with_th (nt_queue s) (packet_step ts junk (nt_pc s) (nt_th s)))"
| se_invoked: "packet_free s \<Longrightarrow> lp_waits (nt_link s) \<Longrightarrow> \<forall>t \<in> live (th_mgr (nt_th s)). tp_channel ts t \<noteq> None \<Longrightarrow>
    settle_step jg s (with_th (nt_queue s) (invoked ts stats (nt_link s) (nt_th s)))"
| se_link: "lp_moves (nt_link s) \<Longrightarrow> settle_step jg s (with_th (nt_queue s) (link_step (nt_link s) (nt_th s)))"

text \<open>
  Every step: also a thread that calls \<open>DoPacketSend\<close>, an operation the link-setup thread begins, and a packet
  from a channel.
\<close>

inductive nt_step :: "jingle \<Rightarrow> node_threads \<Rightarrow> node_threads result \<Rightarrow> bool" for jg where
  nt_settle: "settle_step jg s r \<Longrightarrow> nt_step jg s r"
| nt_send: "t \<noteq> packet_thread \<Longrightarrow> sq_pc (nt_queue s) t = Idle \<Longrightarrow> t \<notin> sq_posting (nt_queue s) \<Longrightarrow>
    nt_step jg s (Inr (s\<lparr>nt_queue := (nt_queue s)\<lparr>sq_queue := goto t (AddLock data) (sq_queue (nt_queue s))\<rparr>\<rparr>))"
| nt_begin: "link_begin jg (nt_th s) th \<Longrightarrow> nt_step jg s (Inr (s\<lparr>nt_th := th\<rparr>))"
| nt_read: "packet_free s \<Longrightarrow> nt_step jg s (with_th (nt_queue s) (read_start jg channel data (nt_th s)))"

definition nt_runs :: "jingle \<Rightarrow> node_threads \<Rightarrow> node_threads \<Rightarrow> bool" where
  "nt_runs jg = (\<lambda>s s'. nt_step jg s (Inr s'))\<^sup>*\<^sup>*"

lemma nt_runs_one: "nt_step jg s (Inr s') \<Longrightarrow> nt_runs jg s s'"
  unfolding nt_runs_def by blast

section \<open>The operations one at a time\<close>

inductive node_op :: "jingle \<Rightarrow> plane \<times> io_event list \<Rightarrow> plane \<times> io_event list \<Rightarrow> bool" for jg where
  no_send: "DoPacketSend buf n p = Inr (r, p', es) \<Longrightarrow> node_op jg (p, out) (p', out)"
| no_message: "0 < pl_signals p \<Longrightarrow> OnMessage jg ts junk kMsgQueueSignal p = Some (Inr (p', es)) \<Longrightarrow>
    node_op jg (p, out) (p', out @ es)"
| no_read: "OnReadPacket jg ts channel data p = Inr p' \<Longrightarrow> node_op jg (p, out) (p', out)"
| no_create: "t \<notin> live (pl_mgr p) \<Longrightarrow> CreateTransport jg now t ch uid a (pl_mgr p) = (True, m, es) \<Longrightarrow>
    node_op jg (p, out) (p\<lparr>pl_mgr := m\<rparr>, out)"
| no_destroy: "DestroyTransport uid (pl_mgr p) = (True, m, es) \<Longrightarrow> node_op jg (p, out) (p\<lparr>pl_mgr := m\<rparr>, out)"
| no_link: "link_op jg (pl_mgr p) m \<Longrightarrow> node_op jg (p, out) (p\<lparr>pl_mgr := m\<rparr>, out)"

text \<open>They are steps of the packet path, so what \<open>Data_Plane\<close> and \<open>Node\<close> prove of these holds for them.\<close>

lemma node_op_pl_step: "node_op jg (p, out) (p', out') \<Longrightarrow> pl_step jg p p'"
  by (auto elim!: node_op.cases intro: pl_send pl_signal pl_read pl_links)

lemma OnReadPacket_mgr: "OnReadPacket jg ts channel data p = Inr p' \<Longrightarrow> pl_mgr p' = pl_mgr p"
  by (auto simp: OnReadPacket_def Let_def split: if_splits option.splits)

lemma links_node_op:
  assumes "op_step jg (m, out, q) (m', out, q)"
  shows "m' = m \<or> (pl_mgr p = m \<longrightarrow> node_op jg (p, es) (p\<lparr>pl_mgr := m'\<rparr>, es))"
  using assms
  by (cases rule: op_step.cases) (auto intro: no_create no_destroy no_link dest: OnReadPacket_mgr)

section \<open>The simulation\<close>

definition full_plane :: "mgr \<Rightarrow> byte list list \<Rightarrow> byte list wqueue \<Rightarrow> plane" where
  "full_plane m l r = (plane_of m l)\<lparr>g_recv_queue := r\<rparr>"

lemma full_plane_simps [simp]:
  "pl_mgr (full_plane m l r) = m" "g_recv_queue (full_plane m l r) = r"
  "(full_plane m l r)\<lparr>pl_mgr := m'\<rparr> = full_plane m' l r" "(full_plane m l r)\<lparr>g_recv_queue := r'\<rparr> = full_plane m l r'"
  "m_queue (g_send_queue (full_plane m l r)) = l" "pl_signals (full_plane m l r) = length l"
  by (simp_all add: full_plane_def plane_of_def plane_new_def)

lemma full_plane_add: "node_op jg (full_plane m l r, out) (full_plane m (l @ [x]) r, out)"
proof -
  have "DoPacketSend x (length x) (full_plane m l r) = Inr (length x, full_plane m (l @ [x]) r, [PostQueueSignal])"
    by (simp add: DoPacketSend_def mem_read_def full_plane_def plane_of_def plane_new_def wq_add_def)
  then show ?thesis by (rule no_send)
qed

lemma full_plane_handle:
  assumes "HandlePacket jg ts junk x m = Inr es"
  shows "node_op jg (full_plane m (x # l) r, out) (full_plane m l r, out @ es)"
proof (rule no_message)
  show "0 < pl_signals (full_plane m (x # l) r)"
      and "OnMessage jg ts junk kMsgQueueSignal (full_plane m (x # l) r) = Some (Inr (full_plane m l r, es))"
    using assms
    by (simp_all add: full_plane_def plane_of_def plane_new_def OnMessage_def HandleQueueSignal_w_def wq_remove_def)
qed

text \<open>
  The state of the threads \<open>s\<close> and of the operations: a packet is in the queue of the latter until it is sent or
  dropped.
\<close>

definition nt_ok :: "jingle \<Rightarrow> node_threads \<Rightarrow> mgr \<Rightarrow> bool" where
  "nt_ok jg s m0 \<longleftrightarrow> sq_reachable (nt_queue s) \<and> threads_ok jg (nt_th s) m0 \<and>
     (sq_pc (nt_queue s) packet_thread = Idle \<or> nt_pc s = PpIdle)"

definition nt_image :: "node_threads \<Rightarrow> mgr \<Rightarrow> plane \<times> io_event list" where
  "nt_image s m0 = (full_plane m0 (carried (nt_pc s) @ waiting (nt_queue s)) (th_recv (nt_th s)), th_sent (nt_th s))"

definition nt_rel :: "jingle \<Rightarrow> node_threads \<Rightarrow> plane \<times> io_event list \<Rightarrow> bool" where
  "nt_rel jg s a \<longleftrightarrow> (\<exists>m0. nt_ok jg s m0 \<and> a = nt_image s m0)"

text \<open>One step from \<open>s\<close>, with the state \<open>m0\<close> of the manager that the operations have reached.\<close>

definition nt_simulates :: "jingle \<Rightarrow> node_threads \<Rightarrow> mgr \<Rightarrow> node_threads result \<Rightarrow> bool" where
  "nt_simulates jg s m0 r \<longleftrightarrow> (\<exists>s' m0'. r = Inr s' \<and> nt_ok jg s' m0' \<and>
     (nt_image s' m0' = nt_image s m0 \<or> node_op jg (nt_image s m0) (nt_image s' m0')))"

lemma nt_okD:
  assumes "nt_ok jg s m0"
  shows "sq_reachable (nt_queue s)" and "threads_ok jg (nt_th s) m0"
    and "sq_pc (nt_queue s) packet_thread \<noteq> Idle \<Longrightarrow> nt_pc s = PpIdle"
    and "mgr_ok m0" and "same_view (th_mgr (nt_th s)) m0" and "packet_rel jg (nt_pc s) (short_uid_map m0)"
    and "link_rel jg (nt_link s) (th_mgr (nt_th s)) m0"
  using assms link_rel_view by (auto simp: nt_ok_def threads_ok_def)

text \<open>Steps inside the queue.\<close>

lemma queue_simulates:
  assumes ok: "nt_ok jg s m0" and step: "sq_step (nt_queue s) q" and same: "sq_handled q = sq_handled (nt_queue s)"
    and idle: "sq_pc q packet_thread = Idle \<or> nt_pc s = PpIdle"
  shows "nt_simulates jg s m0 (Inr (s\<lparr>nt_queue := q\<rparr>))"
proof -
  note reach = nt_okD(1) [OF ok]
  have "waiting q = waiting (nt_queue s) \<or> (\<exists>x. waiting q = waiting (nt_queue s) @ [x])"
    using sq_step_effect [OF step reach] same by (metis append_self_conv not_Cons_self2)
  then have "nt_image (s\<lparr>nt_queue := q\<rparr>) m0 = nt_image s m0 \<or>
      node_op jg (nt_image s m0) (nt_image (s\<lparr>nt_queue := q\<rparr>) m0)"
    using full_plane_add [of jg m0 "carried (nt_pc s) @ waiting (nt_queue s)"] by (auto simp: nt_image_def)
  moreover have "nt_ok jg (s\<lparr>nt_queue := q\<rparr>) m0"
    using ok idle sq_next [OF reach step] by (simp add: nt_ok_def)
  ultimately show ?thesis
    unfolding nt_simulates_def by blast
qed

text \<open>Steps of a packet in the hands of the packet-handling thread.\<close>

lemma packet_simulates:
  assumes ok: "nt_ok jg s m0" and out: "packet_out jg m0 l (nt_th s) r" and q: "sq_reachable q"
    and idle: "sq_pc q packet_thread = Idle" and l: "l @ waiting q = carried (nt_pc s) @ waiting (nt_queue s)"
  shows "nt_simulates jg s m0 (with_th q r)"
proof -
  from out obtain th where r: "r = Inr th" and th: "th_mgr th = th_mgr (nt_th s)" "th_link th = nt_link s"
      "packet_rel jg (th_packet th) (short_uid_map m0)"
    and cases: "th_sent th = th_sent (nt_th s) \<and> th_recv th = th_recv (nt_th s) \<and> carried (th_packet th) = l \<or>
      carried (th_packet th) = [] \<and> (\<exists>data. l = [data] \<and> packet_sends jg m0 data (nt_th s) th) \<or>
      carried (th_packet th) = [] \<and> l = [] \<and> packet_reads jg m0 (nt_th s) th"
    unfolding packet_out_def by blast
  let ?s = "\<lparr>nt_queue = q, nt_th = th\<rparr>"
  have image: "nt_image s m0 = (full_plane m0 (l @ waiting q) (th_recv (nt_th s)), th_sent (nt_th s))"
    by (simp add: nt_image_def l)
  have image': "nt_image ?s m0 = (full_plane m0 (carried (th_packet th) @ waiting q) (th_recv th), th_sent th)"
    by (simp add: nt_image_def)
  from cases have "nt_image ?s m0 = nt_image s m0 \<or> node_op jg (nt_image s m0) (nt_image ?s m0)"
  proof (elim disjE conjE exE)
    fix data
    assume "carried (th_packet th) = []" "l = [data]" "packet_sends jg m0 data (nt_th s) th"
    then show ?thesis
      using full_plane_handle [of jg _ _ data m0] by (auto simp: image image' packet_sends_def)
  next
    assume "carried (th_packet th) = []" "l = []" "packet_reads jg m0 (nt_th s) th"
    moreover from this obtain ts channel data where "OnReadPacket jg ts channel data
        (full_plane m0 (waiting q) (th_recv (nt_th s))) = Inr (full_plane m0 (waiting q) (th_recv th))"
      unfolding packet_reads_def using full_plane_simps by metis
    ultimately show ?thesis
      using no_read [of jg ts channel data] by (simp add: image image' packet_reads_def)
  qed (simp add: image image')
  moreover have "nt_ok jg ?s m0"
    using nt_okD(2) [OF ok] th q idle by (simp add: nt_ok_def threads_ok_def)
  ultimately show ?thesis
    unfolding nt_simulates_def by (auto simp: r with_th_def)
qed

text \<open>Steps of the link-setup thread and of the calls it waits for.\<close>

lemma links_simulates:
  assumes ok: "nt_ok jg s m0" and th: "threads_ok jg th m0'" "th_packet th = nt_pc s"
      "th_sent th = th_sent (nt_th s)" "th_recv th = th_recv (nt_th s)"
    and op: "m0' = m0 \<or> (\<forall>out q. op_step jg (m0, out, q) (m0', out, q))"
  shows "nt_simulates jg s m0 (Inr (s\<lparr>nt_th := th\<rparr>))"
proof -
  let ?p = "fst (nt_image s m0)"
  have image: "nt_image (s\<lparr>nt_th := th\<rparr>) m0' = (?p\<lparr>pl_mgr := m0'\<rparr>, th_sent (nt_th s))"
      "nt_image s m0 = (?p, th_sent (nt_th s))" "pl_mgr ?p = m0"
    using th by (simp_all add: nt_image_def)
  have "m0' = m0 \<or> node_op jg (nt_image s m0) (nt_image (s\<lparr>nt_th := th\<rparr>) m0')"
    using op links_node_op [of jg m0 _ _ m0' ?p] image by metis
  moreover have "nt_image (s\<lparr>nt_th := th\<rparr>) m0 = nt_image s m0"
    using th by (simp add: nt_image_def)
  moreover have "nt_ok jg (s\<lparr>nt_th := th\<rparr>) m0'"
    using ok th by (simp add: nt_ok_def)
  ultimately show ?thesis
    unfolding nt_simulates_def by blast
qed

lemma read_start_simulates:
  assumes "same_view (th_mgr s) m0" and "th_packet s = PpIdle"
  shows "packet_out jg m0 [] s (read_start jg channel data s)"
  using assms by (auto simp: read_start_def same_view_def packet_out_def)

lemma drain_step_handles:
  "drain_step s s' \<Longrightarrow> sq_handled s' \<noteq> sq_handled s \<Longrightarrow>
     sq_pc s packet_thread \<noteq> Idle \<and> sq_pc s' packet_thread = Idle"
  by (cases rule: drain_step.cases) auto

lemma settle_simulates:
  assumes "settle_step jg s r" and ok: "nt_ok jg s m0"
  shows "nt_simulates jg s m0 r"
proof -
  note reach = nt_okD(1) [OF ok] and th = nt_okD(2) [OF ok] and m0 = nt_okD(4) [OF ok]
    and view = nt_okD(5) [OF ok] and prel = nt_okD(6) [OF ok] and lrel = nt_okD(7) [OF ok]
  from assms(1) show ?thesis
  proof (cases rule: settle_step.cases)
    case (se_queue q)
    then show ?thesis
      using queue_simulates [OF ok sq_drain] by simp
  next
    case (se_handle q data junk)
    have idle: "sq_pc q packet_thread = Idle" "nt_pc s = PpIdle"
      using drain_step_handles [OF se_handle(2)] se_handle(3) nt_okD(3) [OF ok] by auto
    have "waiting (nt_queue s) = data # waiting q"
      using sq_step_effect [OF sq_drain [OF se_handle(2)] reach] se_handle(3)
      by (metis append_self_conv last_snoc not_Cons_self2)
    then show ?thesis
      unfolding se_handle(1)
      by (intro packet_simulates [OF ok packet_start_simulates [OF m0 view idle(2)]
            sq_next [OF reach sq_drain [OF se_handle(2)]] idle(1)]) (simp add: idle)
  next
    case (se_packet ts junk)
    then have "sq_pc (nt_queue s) packet_thread = Idle"
      using nt_okD(3) [OF ok] by blast
    then show ?thesis
      unfolding se_packet(1)
      by (intro packet_simulates [OF ok packet_step_simulates [OF m0 view prel refl] reach]) simp_all
  next
    case (se_invoked ts stats)
    from invoked_simulates [OF lrel m0 refl refl se_invoked(4), of stats] prel
    obtain th' m0' where "invoked ts stats (nt_link s) (nt_th s) = Inr th'" "threads_ok jg th' m0'"
        "th_packet th' = nt_pc s" "th_sent th' = th_sent (nt_th s)" "th_recv th' = th_recv (nt_th s)"
        "m0' = m0 \<or> (\<forall>out q. op_step jg (m0, out, q) (m0', out, q))"
      using se_invoked(2) unfolding threads_ok_def packet_free_def by fastforce
    then show ?thesis
      using links_simulates [OF ok, of th' m0'] by (simp add: se_invoked(1))
  next
    case se_link
    from link_step_simulates [OF lrel refl refl] m0 prel
    obtain th' where "link_step (nt_link s) (nt_th s) = Inr th'" "threads_ok jg th' m0"
        "th_packet th' = nt_pc s" "th_sent th' = th_sent (nt_th s)" "th_recv th' = th_recv (nt_th s)"
      unfolding threads_ok_def by metis
    then show ?thesis
      using links_simulates [OF ok, of th' m0] by (simp add: se_link(1))
  qed
qed

lemma nt_step_simulates:
  assumes "nt_step jg s r" and ok: "nt_ok jg s m0"
  shows "nt_simulates jg s m0 r"
  using assms(1)
proof (cases rule: nt_step.cases)
  case nt_settle
  then show ?thesis using ok by (rule settle_simulates)
next
  case (nt_send t data)
  have idle: "sq_pc (nt_queue s) packet_thread = Idle \<or> nt_pc s = PpIdle"
    using nt_okD(3) [OF ok] by blast
  show ?thesis
    unfolding nt_send(1)
    by (rule queue_simulates [OF ok sq_send [OF nt_send(2-4)]]) (use idle nt_send(2) in auto)
next
  case (nt_begin th)
  from link_begin_simulates [OF nt_begin(2) nt_okD(2) [OF ok]]
  obtain m0' where "threads_ok jg th m0'" "th_packet th = nt_pc s" "th_sent th = th_sent (nt_th s)"
      "th_recv th = th_recv (nt_th s)" "m0' = m0 \<or> (\<forall>out q. op_step jg (m0, out, q) (m0', out, q))"
    by (blast intro: os_op)
  then show ?thesis
    using links_simulates [OF ok] nt_begin(1) by simp
next
  case (nt_read channel data)
  then have idle: "sq_pc (nt_queue s) packet_thread = Idle" "nt_pc s = PpIdle"
    by (simp_all add: packet_free_def)
  show ?thesis
    unfolding nt_read(1)
    by (rule packet_simulates [OF ok read_start_simulates [OF nt_okD(5) [OF ok] idle(2)] nt_okD(1) [OF ok] idle(1)])
      (simp add: idle)
qed

interpretation all: safe_simulation "nt_step jg" "node_op jg" "nt_rel jg" for jg
proof unfold_locales
  fix s a r
  assume "nt_rel jg s a" and step: "nt_step jg s r"
  then obtain m0 where ok: "nt_ok jg s m0" and a: "a = nt_image s m0"
    by (auto simp: nt_rel_def)
  from nt_step_simulates [OF step ok]
  show "\<exists>s' a'. r = Inr s' \<and> (a' = a \<or> node_op jg a a') \<and> nt_rel jg s' a'"
    unfolding nt_simulates_def nt_rel_def a by blast
qed

lemma nt_start_rel: "mgr_ok m \<Longrightarrow> nt_rel jg (nt_start m) (plane_new m True, [])"
proof -
  assume "mgr_ok m"
  then have "nt_ok jg (nt_start m) m"
    by (simp add: nt_ok_def nt_start_def th_start_def threads_ok_def sq_start)
  moreover have "nt_image (nt_start m) m = (plane_new m True, [])"
    by (simp add: nt_image_def nt_start_def th_start_def full_plane_def plane_of_def plane_new_def wq_new_def
        waiting_def sq_init_def monitor_init_def)
  ultimately show ?thesis
    unfolding nt_rel_def by force
qed

lemma runs_nt_ok:
  assumes "nt_runs jg (nt_start m) s" and "mgr_ok m"
  shows "\<exists>m0. (node_op jg)\<^sup>*\<^sup>* (plane_new m True, []) (nt_image s m0) \<and> nt_ok jg s m0"
  using all.runs_related [OF _ nt_start_rel [OF assms(2)]] assms(1)
  unfolding nt_runs_def nt_rel_def by blast

lemma node_ops_pl_steps: "(node_op jg)\<^sup>*\<^sup>* a b \<Longrightarrow> (pl_step jg)\<^sup>*\<^sup>* (fst a) (fst b)"
proof (induction rule: rtranclp_induct)
  case (step b c)
  then have "pl_step jg (fst b) (fst c)"
    using node_op_pl_step [of jg "fst b" "snd b" "fst c" "snd c"] by simp
  with step.IH show ?case by (rule rtranclp.rtrancl_into_rtrancl)
qed simp

section \<open>The threads come to rest\<close>

fun link_left :: "link_pc \<Rightarrow> nat" where
  "link_left LpIdle = 0"
| "link_left (LpBuilt uid ps) = 2"
| "link_left (LpInsert uid t) = 1"
| "link_left (LpErase uid) = 3"
| "link_left (LpErased uid) = 2"
| "link_left (LpUnlinked t) = 1"
| "link_left (LpStats uid) = 1"

definition nt_work :: "node_threads \<Rightarrow> nat" where
  "nt_work s = 4 * sq_work (nt_queue s) + packet_left (nt_pc s) + link_left (nt_link s)"

definition nt_rest :: "node_threads \<Rightarrow> bool" where
  "nt_rest s \<longleftrightarrow> sq_quiet (nt_queue s) \<and> nt_pc s = PpIdle \<and> nt_link s = LpIdle"

text \<open>What each kind of step takes away.\<close>

lemma packet_start_left:
  assumes "packet_start jg junk data th = Inr th'" and "th_packet th = PpIdle"
  shows "th_link th' = th_link th \<and> packet_left (th_packet th') \<le> 3"
  using assms
  by (auto simp: packet_start_def th_emit_def tincan_simps Let_def split: if_splits)

lemma packet_step_link: "packet_step ts junk pc th = Inr th' \<Longrightarrow> th_link th' = th_link th"
  by (cases pc) (auto simp: via_short_def th_emit_def tincan_simps split: if_splits option.splits)

lemma invoked_left:
  "invoked ts stats pc th = Inr th' \<Longrightarrow> lp_waits pc \<Longrightarrow> link_left (th_link th') < link_left pc \<and> th_packet th' = th_packet th"
  by (cases pc) (auto simp: tincan_simps)

lemma link_step_left:
  "link_step pc th = Inr th' \<Longrightarrow> lp_moves pc \<Longrightarrow> link_left (th_link th') < link_left pc \<and> th_packet th' = th_packet th"
  by (cases pc) (auto split: option.splits)

lemma Inr_with_th:
  assumes "Inr s = with_th q r"
  obtains th where "r = Inr th" and "nt_th s = th" and "nt_queue s = q"
  using assms [symmetric] by (auto simp: with_th_def sbind_eq_Inr)

lemma settle_step_work:
  assumes "settle_step jg s (Inr s')" and ok: "nt_ok jg s m0"
  shows "nt_work s' < nt_work s \<and> sq_given (nt_queue s') = sq_given (nt_queue s)"
proof -
  have sq: "sq_inv (nt_queue s)"
    using nt_okD(1) [OF ok] by (rule reachable_sq_inv)
  from assms(1) show ?thesis
  proof (cases rule: settle_step.cases)
    case (se_queue q)
    then show ?thesis
      using drain_step_work [OF se_queue(2) sq] by (simp add: nt_work_def)
  next
    case (se_handle q data junk)
    then have idle: "nt_pc s = PpIdle"
      using drain_step_handles [OF se_handle(2)] nt_okD(3) [OF ok] by auto
    obtain th where th: "packet_start jg junk data (nt_th s) = Inr th" "nt_th s' = th" "nt_queue s' = q"
      using se_handle(1) by (rule Inr_with_th)
    show ?thesis
      using packet_start_left [OF th(1) idle] drain_step_work [OF se_handle(2) sq] by (simp add: nt_work_def th idle)
  next
    case (se_packet ts junk)
    obtain th where th: "packet_step ts junk (nt_pc s) (nt_th s) = Inr th" "nt_th s' = th" "nt_queue s' = nt_queue s"
      using se_packet(1) by (rule Inr_with_th)
    show ?thesis
      using packet_step_left [OF th(1) se_packet(2)] packet_step_link [OF th(1)] by (simp add: nt_work_def th)
  next
    case (se_invoked ts stats)
    obtain th where th: "invoked ts stats (nt_link s) (nt_th s) = Inr th" "nt_th s' = th" "nt_queue s' = nt_queue s"
      using se_invoked(1) by (rule Inr_with_th)
    show ?thesis
      using invoked_left [OF th(1) se_invoked(3)] by (simp add: nt_work_def th)
  next
    case se_link
    obtain th where th: "link_step (nt_link s) (nt_th s) = Inr th" "nt_th s' = th" "nt_queue s' = nt_queue s"
      using se_link(1) by (rule Inr_with_th)
    show ?thesis
      using link_step_left [OF th(1) se_link(2)] by (simp add: nt_work_def th)
  qed
qed

text \<open>Until the threads are at rest one of them can go on: none waits for another for good.\<close>

lemma not_rest_moves:
  assumes ok: "nt_ok jg s m0" and busy: "\<not> nt_rest s"
  shows "\<exists>s'. settle_step jg s (Inr s')"
proof -
  have reach: "sq_reachable (nt_queue s)"
    using ok by (rule nt_okD)
  consider "nt_pc s \<noteq> PpIdle" | "lp_moves (nt_link s)"
    | q where "nt_pc s = PpIdle" "drain_step (nt_queue s) q"
    | "packet_free s" "lp_waits (nt_link s)"
  proof (cases "sq_quiet (nt_queue s)")
    case True
    then show ?thesis
      using busy that by (cases "nt_link s") (auto simp: nt_rest_def packet_free_def sq_quiet_def)
  next
    case False
    then show ?thesis
      using not_quiet_moves [OF reach] that by blast
  qed
  then have "\<exists>r. settle_step jg s r"
  proof cases
    case 3
    show ?thesis
      using drain_step_effect [OF 3(2) reach] se_queue [OF 3(2)] se_handle [OF 3(2)] 3(1) by blast
  next
    case 4
    have "\<forall>t \<in> live (th_mgr (nt_th s)). tp_channel (demo_ts True) t \<noteq> None"
      by (simp add: demo_ts_def)
    with 4 show ?thesis by (blast intro: se_invoked)
  qed (blast intro: se_packet se_link)+
  then show ?thesis
    using settle_simulates [OF _ ok] unfolding nt_simulates_def by blast
qed

text \<open>What the packet table leads to is alive.\<close>

lemma nt_ok_table:
  assumes ok: "nt_ok jg s m0" and "short_uid_map (th_mgr (nt_th s)) sub = Some t"
  shows "t \<in> live (th_mgr (nt_th s))"
  using assms(2) nt_okD(5) [OF ok] mgr_ok_short [OF nt_okD(4) [OF ok], of sub t] by (auto simp: same_view_def)

lemma nt_ok_no_fault: "nt_ok jg s m0 \<Longrightarrow> \<not> nt_step jg s (Inl f)"
  using nt_step_simulates unfolding nt_simulates_def by blast

lemma nt_ok_idle: "nt_ok jg s m0 \<Longrightarrow> nt_link s = LpIdle \<Longrightarrow> m0 = th_mgr (nt_th s)"
  using nt_okD(7) by fastforce

interpretation settles: settling "\<lambda>s s'. settle_step jg s (Inr s')"
  "\<lambda>s. (\<exists>m0. nt_ok jg s m0) \<and> sq_given (nt_queue s) = g" nt_work nt_rest for jg g
proof unfold_locales
  fix s s'
  assume inv: "(\<exists>m0. nt_ok jg s m0) \<and> sq_given (nt_queue s) = g"
  then obtain m0 where ok: "nt_ok jg s m0" by blast
  show "(\<exists>m0. nt_ok jg s' m0) \<and> sq_given (nt_queue s') = g" if "settle_step jg s (Inr s')"
    using settle_simulates [OF that ok] settle_step_work [OF that ok] inv unfolding nt_simulates_def by auto
  show "nt_work s' < nt_work s" if "settle_step jg s (Inr s')"
    using settle_step_work [OF that ok] by simp
  show "\<exists>s'. settle_step jg s (Inr s')" if "\<not> nt_rest s"
    using ok that by (rule not_rest_moves)
qed

section \<open>A concrete run\<close>

text \<open>A thread is about to add a packet to the queue while the link-setup thread waits for the removal of a link.\<close>

definition demo_all :: node_threads where
  "demo_all = \<lparr>nt_queue = sq_init\<lparr>sq_queue := goto 1 (AddLock [7]) (sq_queue sq_init)\<rparr>,
     nt_th = (th_start demo_linked)\<lparr>th_link := LpErase (demo_uid (CHR ''1''))\<rparr>\<rparr>"

lemma demo_all_runs: "nt_runs jingle0 (nt_start demo_linked) demo_all"
proof -
  let ?s = "nt_start demo_linked"
  let ?q = "(nt_queue ?s)\<lparr>sq_queue := goto 1 (AddLock [7]) (sq_queue (nt_queue ?s))\<rparr>"
  have "nt_step jingle0 ?s (Inr (?s\<lparr>nt_queue := ?q\<rparr>))"
    by (rule nt_send) (simp_all add: nt_start_def sq_init_def monitor_init_def packet_thread_def)
  moreover have "nt_step jingle0 (?s\<lparr>nt_queue := ?q\<rparr>) (Inr demo_all)"
    using nt_begin [OF lb_destroy, of "?s\<lparr>nt_queue := ?q\<rparr>" "demo_uid (CHR ''1'')" jingle0]
    by (simp add: nt_start_def th_start_def demo_all_def)
  ultimately show ?thesis
    unfolding nt_runs_def by (blast intro: converse_rtranclp_into_rtranclp)
qed

lemma demo_all_given: "sq_given (nt_queue demo_all) = {#[7]#}"
proof -
  have "{t. sq_pc (nt_queue demo_all) t \<noteq> Idle} = {1}"
    by (auto simp: demo_all_def sq_init_def monitor_init_def)
  then show ?thesis
    by (simp add: sq_given_def total_def demo_all_def sq_init_def monitor_init_def)
qed

lemma demo_all_ends:
  obtains n s where "((\<lambda>s s'. settle_step jingle0 s (Inr s')) ^^ n) demo_all s" and "\<nexists>s'. settle_step jingle0 s (Inr s')"
    and "nt_runs jingle0 (nt_start demo_linked) s" and "nt_rest s"
proof -
  have "\<exists>m0. nt_ok jingle0 demo_all m0"
    using runs_nt_ok [OF demo_all_runs] demo_race_ok by (auto simp: mgr_ok_def)
  then have inv: "(\<exists>m0. nt_ok jingle0 demo_all m0) \<and> sq_given (nt_queue demo_all) = {#[7]#}"
    by (simp add: demo_all_given)
  obtain n s where run: "((\<lambda>s s'. settle_step jingle0 s (Inr s')) ^^ n) demo_all s"
      and last: "\<nexists>s'. settle_step jingle0 s (Inr s')"
    using settles.ends [OF inv] by blast
  have "(\<lambda>s s'. settle_step jingle0 s (Inr s'))\<^sup>*\<^sup>* demo_all s"
    using run by (rule relpowp_imp_rtranclp)
  then have "(\<lambda>s s'. nt_step jingle0 s (Inr s'))\<^sup>*\<^sup>* demo_all s"
    by (rule rtranclp_mono [THEN predicate2D, rotated]) (blast intro: nt_settle)
  then have "nt_runs jingle0 (nt_start demo_linked) s"
    using demo_all_runs unfolding nt_runs_def by (rule rtranclp_trans [rotated])
  then show thesis
    using that [OF run last] settles.settles [OF run inv] last by blast
qed

section \<open>Properties\<close>

text \<open>
  Claim C6. All the threads of a node do what its operations do one at a time: in every interleaving of senders,
  packet-handling thread and link-setup thread, what has been sent and received, the packets not sent yet and
  the manager between two of its operations are those after some sequence of whole calls of \<open>DoPacketSend\<close>,
  \<open>OnMessage\<close>, \<open>OnReadPacket\<close>, \<open>CreateTransport\<close>, \<open>DestroyTransport\<close> and the others; and no step calls through a
  null pointer or a transport that is gone.
\<close>

theorem all_threads_refine:
  assumes "links_ok m" and "forward_socket m \<noteq> None" and "nt_runs jg (nt_start m) s"
  shows "(\<exists>p. (node_op jg)\<^sup>*\<^sup>* (plane_new m True, []) (p, th_sent (nt_th s)) \<and>
      m_queue (g_send_queue p) = carried (nt_pc s) @ waiting (nt_queue s) \<and>
      pl_signals p = length (m_queue (g_send_queue p)) \<and> g_recv_queue p = th_recv (nt_th s) \<and>
      (nt_link s = LpIdle \<longrightarrow> pl_mgr p = th_mgr (nt_th s))) \<and>
    (\<forall>f. \<not> nt_step jg s (Inl f))"
proof -
  have m: "mgr_ok m"
    using assms(1,2) by (simp add: mgr_ok_def)
  obtain m0 where run: "(node_op jg)\<^sup>*\<^sup>* (plane_new m True, []) (nt_image s m0)" and ok: "nt_ok jg s m0"
    using runs_nt_ok [OF assms(3) m] by blast
  show ?thesis
    using run nt_ok_idle [OF ok] nt_ok_no_fault [OF ok] by (auto simp: nt_image_def)
qed

theorem all_threads_refine_witness:
  "\<exists>s p. nt_runs jingle0 (nt_start demo_linked) s \<and> nt_rest s \<and>
    (node_op jingle0)\<^sup>*\<^sup>* (plane_new demo_linked True, []) (p, th_sent (nt_th s)) \<and> pl_mgr p = th_mgr (nt_th s)"
proof -
  obtain s where s: "nt_runs jingle0 (nt_start demo_linked) s" "nt_rest s"
    using demo_all_ends by blast
  then show ?thesis
    using all_threads_refine [of demo_linked jingle0 s] demo_race_ok unfolding nt_rest_def by blast
qed

text \<open>
  Claim C7. The threads never deadlock: from every reachable state, when nothing new begins, every schedule ends
  after at most \<open>nt_work s\<close> steps, and where it ends the link-setup thread is back from its operation and the calls
  it waited for, and every packet given to \<open>DoPacketSend\<close> has been handled exactly once, in the order of the queue.
\<close>

theorem all_threads_settle:
  assumes "links_ok m" and "forward_socket m \<noteq> None" and "nt_runs jg (nt_start m) s"
  shows "\<forall>n s'. ((\<lambda>s s'. settle_step jg s (Inr s')) ^^ n) s s' \<longrightarrow>
    n \<le> nt_work s \<and>
    ((\<exists>s''. settle_step jg s' (Inr s'')) \<or>
     nt_link s' = LpIdle \<and> nt_pc s' = PpIdle \<and> sq_handled (nt_queue s') = pushed (sq_queue (nt_queue s')) \<and>
     mset (sq_handled (nt_queue s')) = sq_given (nt_queue s))"
proof (intro allI impI)
  fix n s'
  assume run: "((\<lambda>s s'. settle_step jg s (Inr s')) ^^ n) s s'"
  obtain m0 where "nt_ok jg s m0"
    using runs_nt_ok [OF assms(3)] assms(1,2) by (auto simp: mgr_ok_def)
  then have inv: "(\<exists>m0. nt_ok jg s m0) \<and> sq_given (nt_queue s) = sq_given (nt_queue s)"
    by blast
  from settles.run [OF run inv] settles.settles [OF run inv]
  show "n \<le> nt_work s \<and>
    ((\<exists>s''. settle_step jg s' (Inr s'')) \<or>
     nt_link s' = LpIdle \<and> nt_pc s' = PpIdle \<and> sq_handled (nt_queue s') = pushed (sq_queue (nt_queue s')) \<and>
     mset (sq_handled (nt_queue s')) = sq_given (nt_queue s))"
    using nt_okD(1) quiet_handled [of "nt_queue s'"] unfolding nt_rest_def by auto
qed

theorem all_threads_settle_witness:
  "\<exists>n s. ((\<lambda>s s'. settle_step jingle0 s (Inr s')) ^^ n) demo_all s \<and> n \<le> nt_work demo_all \<and>
    nt_link s = LpIdle \<and> sq_handled (nt_queue s) = [[7]]"
proof -
  obtain n s where run: "((\<lambda>s s'. settle_step jingle0 s (Inr s')) ^^ n) demo_all s"
      and last: "\<nexists>s'. settle_step jingle0 s (Inr s')"
    by (rule demo_all_ends)
  have "n \<le> nt_work demo_all \<and> nt_link s = LpIdle \<and> sq_handled (nt_queue s) = [[7]]"
    using all_threads_settle [of demo_linked jingle0, OF _ _ demo_all_runs, rule_format, OF _ _ run] demo_race_ok last
    by (auto simp: demo_all_given)
  with run show ?thesis by blast
qed

end
