(* ===== verification/Log_Time.thy ===== *)
theory Log_Time
  imports Tincan_Prelude "HOL-Library.Product_Lexorder"
begin

text \<open>
  The time stamp \<open>CurrentTime\<close> that \<open>LOG_TS\<close> puts in front of each line of the log on Linux
  (\<open>src/tincan_utils.cc\<close>, \<open>src/tincan_utils.h\<close>), written through the manipulators \<open>setfill\<close> and \<open>setw\<close>
  of a C++ output stream. The stream is one of the log: decimal numbers, adjusted to the right.
\<close>

section \<open>Output streams\<close>

text \<open>The characters written, and the fill character and the width of the next field.\<close>

record ostream =
  os_out :: string
  os_fill :: char
  os_width :: nat

definition setfill :: "char \<Rightarrow> ostream \<Rightarrow> ostream" where
  "setfill c s = s\<lparr>os_fill := c\<rparr>"

definition setw :: "nat \<Rightarrow> ostream \<Rightarrow> ostream" where
  "setw n s = s\<lparr>os_width := n\<rparr>"

text \<open>Every insertion is padded to the width, which it resets; the fill character stays.\<close>

definition put_string :: "string \<Rightarrow> ostream \<Rightarrow> ostream" where
  "put_string x s =
     s\<lparr>os_out := os_out s @ replicate (os_width s - length x) (os_fill s) @ x, os_width := 0\<rparr>"

definition put_int :: "int \<Rightarrow> ostream \<Rightarrow> ostream" where
  "put_int i = put_string (show_int i)"

section \<open>The time stamp\<close>

text \<open>The fields the code reads of what \<open>gettimeofday\<close> and \<open>localtime\<close> give.\<close>

record log_time =
  tm_mon :: int
  tm_mday :: int
  tm_hour :: int
  tm_min :: int
  tm_sec :: int
  tv_usec :: int

definition put_CurrentTime :: "log_time \<Rightarrow> ostream \<Rightarrow> ostream" where
  "put_CurrentTime t s =
     (let s = put_string ''['' s;
          s = put_int (tm_mon t + 1) (setw 2 (setfill CHR ''0'' s));
          s = put_int (tm_mday t) (setw 2 (setfill CHR ''0'' (put_string ''/'' s)));
          s = put_int (tm_hour t) (setw 2 (setfill CHR ''0'' (put_string '' '' s)));
          s = put_int (tm_min t) (setw 2 (setfill CHR ''0'' (put_string '':'' s)));
          s = put_int (tm_sec t) (setw 2 (setfill CHR ''0'' (put_string '':'' s)));
          s = put_int (tv_usec t) (setw 6 (setfill CHR ''0'' (put_string ''.'' s)))
      in put_string ''] '' s)"

text \<open>The ranges the C library documents for these fields, and the order of two times of a year.\<close>

definition valid_time :: "log_time \<Rightarrow> bool" where
  "valid_time t \<longleftrightarrow> 0 \<le> tm_mon t \<and> tm_mon t \<le> 11 \<and> 1 \<le> tm_mday t \<and> tm_mday t \<le> 31 \<and>
     0 \<le> tm_hour t \<and> tm_hour t \<le> 23 \<and> 0 \<le> tm_min t \<and> tm_min t \<le> 59 \<and>
     0 \<le> tm_sec t \<and> tm_sec t \<le> 60 \<and> 0 \<le> tv_usec t \<and> tv_usec t < 1000000"

definition time_key :: "log_time \<Rightarrow> int \<times> int \<times> int \<times> int \<times> int \<times> int" where
  "time_key t = (tm_mon t, tm_mday t, tm_hour t, tm_min t, tm_sec t, tv_usec t)"

section \<open>Numbers of a fixed width\<close>

fun digits :: "nat \<Rightarrow> nat \<Rightarrow> string" where
  "digits 0 n = []"
| "digits (Suc w) n = digits w (n div 10) @ [digit_char (n mod 10)]"

lemma length_digits [simp]: "length (digits w n) = w"
  by (induction w arbitrary: n) simp_all

lemma digit_char_0: "digit_char 0 = CHR ''0''"
  by code_simp

lemma digits_zero: "digits w 0 = replicate w CHR ''0''"
  by (induction w) (simp_all add: digit_char_0 replicate_append_same)

lemma padded_digits:
  "n < 10 ^ w \<Longrightarrow> 0 < w \<Longrightarrow> replicate (w - length (show_nat n)) CHR ''0'' @ show_nat n = digits w n"
proof (induction w arbitrary: n)
  case (Suc w)
  show ?case
  proof (cases "n < 10")
    case True
    then show ?thesis by (simp add: show_nat.simps [of n] digits_zero)
  next
    case False
    with Suc.prems have "n div 10 < 10 ^ w" and "0 < w"
      by (auto intro: gr0I)
    from Suc.IH [OF this] False show ?thesis
      by (simp add: show_nat.simps [of n])
  qed
qed simp

lemma append_less_iff:
  "length xs = length ys \<Longrightarrow> xs @ us < ys @ vs \<longleftrightarrow> xs < ys \<or> xs = ys \<and> us < (vs :: 'a :: linorder list)"
  by (induction xs ys rule: list_induct2) auto

lemma digit_char_less_iff: "a < 10 \<Longrightarrow> b < 10 \<Longrightarrow> digit_char a < digit_char b \<longleftrightarrow> a < b"
  by (simp add: less_char_def of_char_digit_char)

lemma less_by_digits: "m div 10 < n div 10 \<or> m div 10 = n div 10 \<and> m mod 10 < n mod 10 \<longleftrightarrow> m < (n :: nat)"
proof -
  have "b < 10 \<Longrightarrow> d < 10 \<Longrightarrow> a < c \<or> a = c \<and> b < d \<longleftrightarrow> a * 10 + b < c * 10 + (d :: nat)" for a b c d
    by linarith
  from this [of "m mod 10" "n mod 10" "m div 10" "n div 10"] show ?thesis
    by simp
qed

lemma digits_less_iff: "m < 10 ^ w \<Longrightarrow> n < 10 ^ w \<Longrightarrow> digits w m < digits w n \<longleftrightarrow> m < n"
proof (induction w arbitrary: m n)
  case (Suc w)
  then have small: "m div 10 < 10 ^ w" "n div 10 < 10 ^ w"
    by auto
  note less = Suc.IH [OF small] Suc.IH [OF small(2) small(1)]
  have "digits w (m div 10) = digits w (n div 10) \<longleftrightarrow> m div 10 = n div 10"
    using less by (metis less_irrefl linorder_neqE_nat)
  then have "digits (Suc w) m < digits (Suc w) n \<longleftrightarrow>
      m div 10 < n div 10 \<or> m div 10 = n div 10 \<and> m mod 10 < n mod 10"
    using less(1) by (simp add: append_less_iff digit_char_less_iff)
  also have "\<dots> \<longleftrightarrow> m < n"
    by (rule less_by_digits)
  finally show ?case .
qed simp

lemma digits_int_less_iff:
  "0 \<le> i \<Longrightarrow> i < 10 ^ w \<Longrightarrow> 0 \<le> j \<Longrightarrow> j < 10 ^ w \<Longrightarrow> digits w (nat i) < digits w (nat j) \<longleftrightarrow> i < j"
  by (subst digits_less_iff) (auto simp: nat_less_iff)

lemma digits_int_eq_iff:
  assumes "0 \<le> i" "i < 10 ^ w" "0 \<le> j" "j < 10 ^ w"
  shows "digits w (nat i) = digits w (nat j) \<longleftrightarrow> i = j"
  using digits_int_less_iff [of i w j] digits_int_less_iff [of j w i] assms
  by (metis less_irrefl linorder_neqE)

lemma put_int_padded:
  assumes "0 \<le> i" "i < 10 ^ w" "0 < w"
  shows "put_int i (setw w (setfill CHR ''0'' s)) =
    s\<lparr>os_out := os_out s @ digits w (nat i), os_fill := CHR ''0'', os_width := 0\<rparr>"
  using assms padded_digits [of "nat i" w]
  by (simp add: put_int_def put_string_def setw_def setfill_def show_int_def nat_less_iff)

definition stamp :: "log_time \<Rightarrow> string" where
  "stamp t = ''['' @ digits 2 (nat (tm_mon t + 1)) @ ''/'' @ digits 2 (nat (tm_mday t)) @
     '' '' @ digits 2 (nat (tm_hour t)) @ '':'' @ digits 2 (nat (tm_min t)) @
     '':'' @ digits 2 (nat (tm_sec t)) @ ''.'' @ digits 6 (nat (tv_usec t)) @ ''] ''"

lemma put_CurrentTime_stamp:
  assumes "valid_time t" and "os_width s = 0"
  shows "put_CurrentTime t s = s\<lparr>os_out := os_out s @ stamp t, os_fill := CHR ''0''\<rparr>"
  using assms
  by (simp add: put_CurrentTime_def valid_time_def put_int_padded Let_def stamp_def)
    (simp add: put_string_def)

lemma stamp_less_iff:
  assumes "valid_time t" and "valid_time u"
  shows "stamp t < stamp u \<longleftrightarrow> time_key t < time_key u"
  using assms
  by (simp add: stamp_def time_key_def valid_time_def append_less_iff digits_int_less_iff
      digits_int_eq_iff less_prod_def' add1_zle_eq)

section \<open>Properties\<close>

text \<open>
  Claim C40. Every time stamp adds 24 characters to the log, and the lines of a year sort as text exactly as
  their times, down to the microsecond. The stream is left with no width, and with \<open>0\<close> as its fill character,
  whatever that was before.
\<close>

theorem log_times_sorted:
  assumes "valid_time t" and "valid_time u" and "os_width s = 0"
  shows "length (os_out (put_CurrentTime t s)) = length (os_out s) + 24 \<and>
    (os_out (put_CurrentTime t s) < os_out (put_CurrentTime u s) \<longleftrightarrow> time_key t < time_key u) \<and>
    os_width (put_CurrentTime t s) = 0 \<and> os_fill (put_CurrentTime t s) = CHR ''0''"
proof -
  have "length (stamp t) = 24"
    by (simp add: stamp_def)
  then show ?thesis
    using assms by (simp add: put_CurrentTime_stamp stamp_less_iff append_less_iff)
qed

definition demo_time :: "int \<Rightarrow> log_time" where
  "demo_time usec = \<lparr>tm_mon = 0, tm_mday = 7, tm_hour = 23, tm_min = 59, tm_sec = 60, tv_usec = usec\<rparr>"

theorem log_times_sorted_witness:
  "os_out (put_CurrentTime (demo_time 99) \<lparr>os_out = ''log '', os_fill = CHR '' '', os_width = 0\<rparr>)
     < os_out (put_CurrentTime (demo_time 100) \<lparr>os_out = ''log '', os_fill = CHR '' '', os_width = 0\<rparr>)"
  using log_times_sorted [of "demo_time 99" "demo_time 100" "\<lparr>os_out = ''log '', os_fill = CHR '' '', os_width = 0\<rparr>"]
  by (simp add: demo_time_def valid_time_def time_key_def)

theorem log_time_example:
  "os_out (put_CurrentTime (demo_time 99) \<lparr>os_out = '''', os_fill = CHR '' '', os_width = 0\<rparr>) =
     ''[01/07 23:59:60.000099] ''"
  by code_simp

end
